theory Spec2Isabelle
  imports Complex_Main "HOL-Library.Sublist"
begin

section \<open>Python strings\<close>

text \<open>
  A Python \<open>str\<close> is modelled as a \<open>string\<close> whose characters are the code points
  0..255 (the Latin-1 range); \<open>length\<close> is Python's \<open>len\<close>. The character classes
  below are what \<open>str.isspace\<close>, \<open>str.lower\<close> and the \<open>re\<close> module's \<open>\s\<close>, \<open>\d\<close>,
  \<open>\w\<close> accept on that range.
\<close>

datatype py_error =
    ValueError string
  | KeyError string
  | AttributeError
  | TypeError
  | IndexError
  | ZeroDivisionError
  | FileNotFoundError string
  | RuntimeError string
  | JSONDecodeError
  | DimensionMismatch

definition is_space :: "char \<Rightarrow> bool" where
  "is_space c =
     (let n = (of_char c :: nat)
      in (9 \<le> n \<and> n \<le> 13) \<or> (28 \<le> n \<and> n \<le> 32) \<or> n = 133 \<or> n = 160)"

definition is_digit :: "char \<Rightarrow> bool" where
  "is_digit c = (let n = (of_char c :: nat) in 48 \<le> n \<and> n \<le> 57)"

definition is_word_char :: "char \<Rightarrow> bool" where
  "is_word_char c =
     (let n = (of_char c :: nat)
      in (48 \<le> n \<and> n \<le> 57) \<or> (65 \<le> n \<and> n \<le> 90) \<or> n = 95 \<or> (97 \<le> n \<and> n \<le> 122)
         \<or> n = 170 \<or> n = 178 \<or> n = 179 \<or> n = 181 \<or> n = 185 \<or> n = 186
         \<or> (188 \<le> n \<and> n \<le> 190) \<or> (192 \<le> n \<and> n \<le> 214)
         \<or> (216 \<le> n \<and> n \<le> 246) \<or> (248 \<le> n \<and> n \<le> 255))"

definition lower_char :: "char \<Rightarrow> char" where
  "lower_char c =
     (let n = (of_char c :: nat)
      in if (65 \<le> n \<and> n \<le> 90) \<or> (192 \<le> n \<and> n \<le> 214) \<or> (216 \<le> n \<and> n \<le> 222)
         then char_of (n + 32) else c)"

definition lower :: "string \<Rightarrow> string" where
  "lower s = map lower_char s"

text \<open>\<open>s.strip()\<close>: leading and trailing whitespace removed.\<close>

definition strip :: "string \<Rightarrow> string" where
  "strip s = rev (dropWhile is_space (rev (dropWhile is_space s)))"

text \<open>\<open>s.split()\<close>: the maximal runs of non-whitespace characters, in order.\<close>

fun split_from :: "string \<Rightarrow> string \<Rightarrow> string list" where
  "split_from cur [] = (if cur = [] then [] else [cur])"
| "split_from cur (c # cs) =
     (if is_space c
      then (if cur = [] then split_from [] cs else cur # split_from [] cs)
      else split_from (cur @ [c]) cs)"

definition split :: "string \<Rightarrow> string list" where
  "split s = split_from [] s"

text \<open>\<open>sep.join(ws)\<close>.\<close>

fun join :: "string \<Rightarrow> string list \<Rightarrow> string" where
  "join sep [] = []"
| "join sep [w] = w"
| "join sep (w # v # ws) = w @ sep @ join sep (v # ws)"

text \<open>
  \<open>xs[lo:hi]\<close> for \<open>lo \<ge> 0\<close>: a negative \<open>hi\<close> counts from the end, and both ends are
  clipped to the list.
\<close>

definition slice :: "'a list \<Rightarrow> nat \<Rightarrow> int \<Rightarrow> 'a list" where
  "slice xs lo hi =
     (let n = int (length xs);
          h = (if hi < 0 then max 0 (n + hi) else min hi n)
      in take (nat h - lo) (drop lo xs))"

section \<open>Chunker\<close>

text \<open>
  \<open>simple_token_split\<close> of \<open>04_build_auxiliary_layers.py\<close> and
  \<open>06_rebuild_core_factual_index.py\<close> (the two copies are identical). The loop
  \<open>for i in range(0, len(words), step)\<close> is \<open>chunk_loop\<close>: \<open>range\<close> raises
  \<open>ValueError\<close> for a zero step and is empty for a negative one.
\<close>

function chunk_loop :: "string list \<Rightarrow> int \<Rightarrow> nat \<Rightarrow> nat \<Rightarrow> string list" where
  "chunk_loop words chunk_size step i =
     (if 0 < step \<and> i < length words
      then join '' '' (slice words i (int i + chunk_size)) # chunk_loop words chunk_size step (i + step)
      else [])"
  by pat_completeness auto
termination
  by (relation "measure (\<lambda>(words, chunk_size, step, i). length words - i)") auto

declare chunk_loop.simps [simp del]

definition simple_token_split :: "string \<Rightarrow> int \<Rightarrow> int \<Rightarrow> py_error + string list" where
  "simple_token_split text chunk_size overlap =
     (let words = split text
      in if int (length words) \<le> chunk_size then Inr [text]
         else let step = chunk_size - overlap
              in if step = 0 then Inl (ValueError ''range() arg 3 must not be zero'')
                 else if step < 0 then Inr []
                 else Inr (chunk_loop words chunk_size (nat step) 0))"

section \<open>Grounding verifier\<close>

text \<open>
  \<open>src/validate/grounding_check.py\<close>. \<open>re.findall(r'\d{1,2}[:h]\d{2}', s)\<close> scans \<open>s\<close>
  from the left; at each position the greedy \<open>\d{1,2}\<close> first tries two digits, then
  one; a match is recorded and the scan resumes behind it.
\<close>

definition is_time_sep :: "char \<Rightarrow> bool" where
  "is_time_sep c = (c = CHR '':'' \<or> c = CHR ''h'')"

fun time_two_digits :: "string \<Rightarrow> bool" where
  "time_two_digits (a # b # c # d # e # _) =
     (is_digit a \<and> is_digit b \<and> is_time_sep c \<and> is_digit d \<and> is_digit e)"
| "time_two_digits _ = False"

fun time_one_digit :: "string \<Rightarrow> bool" where
  "time_one_digit (a # c # d # e # _) =
     (is_digit a \<and> is_time_sep c \<and> is_digit d \<and> is_digit e)"
| "time_one_digit _ = False"

definition match_time :: "string \<Rightarrow> nat option" where
  "match_time s =
     (if time_two_digits s then Some 5 else if time_one_digit s then Some 4 else None)"

function findall_time :: "string \<Rightarrow> string list" where
  "findall_time [] = []"
| "findall_time (c # cs) =
     (case match_time (c # cs) of
        Some n \<Rightarrow> take n (c # cs) # findall_time (drop n (c # cs))
      | None \<Rightarrow> findall_time cs)"
  by pat_completeness auto
termination
  by (relation "measure length") (auto simp: match_time_def split: if_splits)

text \<open>
  \<open>s.replace(old, new)\<close>: every non-overlapping occurrence of \<open>old\<close>, found from the
  left, is replaced; an empty \<open>old\<close> matches before every character and at the end.
\<close>

function replace :: "string \<Rightarrow> string \<Rightarrow> string \<Rightarrow> string" where
  "replace old new s =
     (if old = [] then new @ concat (map (\<lambda>c. c # new) s)
      else if s = [] then []
      else if prefix old s then new @ replace old new (drop (length old) s)
      else hd s # replace old new (tl s))"
  by pat_completeness auto
termination
  by (relation "measure (\<lambda>(old, new, s). length s)") auto

declare replace.simps [simp del]

text \<open>
  The loop over \<open>time_matches\<close>: each match adds its normalized token and is removed
  from the running \<open>lower_text\<close> with \<open>str.replace\<close>. The state is the pair of the tokens
  collected so far and the running text.
\<close>

fun time_loop :: "string list \<Rightarrow> string set \<times> string \<Rightarrow> string set \<times> string" where
  "time_loop [] (tokens, lower_text) = (tokens, lower_text)"
| "time_loop (time_str # rest) (tokens, lower_text) =
     (let normalized = replace ''h'' '':'' time_str
      in time_loop rest
           (insert (''time_'' @ normalized) tokens, replace time_str '''' lower_text))"

text \<open>\<open>re.sub(r'[^\w\s]', '', s)\<close> keeps the word characters and the whitespace.
  \<open>tokenize\<close> is the source's \<open>_tokenize\<close>.\<close>

definition strip_punctuation :: "string \<Rightarrow> string" where
  "strip_punctuation s = filter (\<lambda>c. is_word_char c \<or> is_space c) s"

definition tokenize :: "string \<Rightarrow> string set" where
  "tokenize text =
     (let lower_text = lower text;
          time_matches = findall_time lower_text;
          (tokens, residual) = time_loop time_matches ({}, lower_text);
          clean_text = strip_punctuation residual;
          generic_tokens = set (filter (\<lambda>t. t \<noteq> []) (split clean_text))
      in tokens \<union> generic_tokens)"

text \<open>
  Python's \<open>float\<close> is the IEEE binary64 format. A float is kept as the rational it
  denotes. \<open>to_double\<close> rounds a rational to the nearest float, ties to even: the
  significand has 53 bits, so the value is scaled by a power of two into
  \<open>[2^52, 2^53)\<close>, rounded to an integer and scaled back. Overflow and subnormal
  numbers are left out: the quotients here lie between \<open>1 / len(union)\<close> and 1.
\<close>

definition round_half_even :: "rat \<Rightarrow> int" where
  "round_half_even y =
     (let f = \<lfloor>y\<rfloor>;
          d = y - of_int f
      in if d < 1 / 2 then f else if 1 / 2 < d then f + 1
         else if even f then f else f + 1)"

definition scale2 :: "rat \<Rightarrow> int \<Rightarrow> rat" where
  "scale2 x k = (if 0 \<le> k then x * 2 ^ nat k else x / 2 ^ nat (- k))"

function bit_length :: "int \<Rightarrow> nat" where
  "bit_length n = (if n \<le> 0 then 0 else Suc (bit_length (n div 2)))"
  by pat_completeness auto
termination
  by (relation "measure nat") auto

declare bit_length.simps [simp del]

text \<open>The integer part of the binary logarithm of a positive rational.\<close>

definition log2_floor :: "rat \<Rightarrow> int" where
  "log2_floor x =
     (let (p, q) = quotient_of x;
          e = int (bit_length p) - int (bit_length q)
      in if scale2 1 e \<le> x then e else e - 1)"

definition to_double :: "rat \<Rightarrow> rat" where
  "to_double x =
     (if x = 0 then 0
      else let k = 52 - log2_floor \<bar>x\<bar>
           in scale2 (of_int (round_half_even (scale2 x k))) (- k))"

text \<open>
  \<open>a / b\<close> on two \<open>int\<close>s is the correctly rounded quotient, and raises
  \<open>ZeroDivisionError\<close> for a zero divisor. \<open>round(x, 4)\<close> is the float nearest to the
  decimal with four places nearest to the exact value of \<open>x\<close>, ties to even.
\<close>

definition truediv :: "nat \<Rightarrow> nat \<Rightarrow> py_error + rat" where
  "truediv a b =
     (if b = 0 then Inl ZeroDivisionError else Inr (to_double (of_nat a / of_nat b)))"

definition round4 :: "rat \<Rightarrow> rat" where
  "round4 x = to_double (of_int (round_half_even (x * 10000)) / 10000)"

definition check_grounding :: "string \<Rightarrow> string list \<Rightarrow> string \<Rightarrow> py_error + rat" where
  "check_grounding query context_list response =
     (if context_list = [] \<or> response = [] then Inr 0
      else let combined_context = join '' '' context_list;
               context_tokens = tokenize combined_context;
               response_tokens = tokenize response;
               intersection = context_tokens \<inter> response_tokens;
               union = context_tokens \<union> response_tokens
           in if union = {} then Inr 0
              else case truediv (card intersection) (card union) of
                     Inl e \<Rightarrow> Inl e
                   | Inr jaccard_score \<Rightarrow> Inr (round4 jaccard_score))"

section \<open>JSON values and decimal printing\<close>

text \<open>
  What \<open>json.loads\<close> returns: \<open>None\<close>, a bool, a number, a \<open>str\<close>, a list or a dict.
  A dict is a finite map from keys to values; \<open>k in d\<close> is \<open>d k \<noteq> None\<close> and
  \<open>d.get(k)\<close> is \<open>d k\<close>, with \<open>None\<close> for Python's \<open>None\<close>.
\<close>

datatype json =
    JNull
  | JBool bool
  | JNum rat
  | JStr string
  | JArr "json list"
  | JObj "(string \<times> json) list"

type_synonym py_dict = "string \<rightharpoonup> json"

text \<open>\<open>str(n)\<close> for an integer, as an f-string prints it.\<close>

function str_nat :: "nat \<Rightarrow> string" where
  "str_nat n =
     (if n < 10 then [char_of (48 + n)]
      else str_nat (n div 10) @ [char_of (48 + n mod 10)])"
  by pat_completeness auto
termination
  by (relation "measure id") auto

declare str_nat.simps [simp del]

definition str_int :: "int \<Rightarrow> string" where
  "str_int i = (if i < 0 then ''-'' @ str_nat (nat (- i)) else str_nat (nat i))"

section \<open>Validator\<close>

text \<open>
  \<open>validate_chunk\<close> of \<open>10_validate_atomic_core.py\<close>. \<open>REQUIRED_FIELDS\<close> is a Python
  set; the list below fixes the order in which the loop visits it, which only
  permutes the \<open>Missing field\<close> messages. \<open>chunk["text"]\<close> raises \<open>KeyError\<close> when the
  key is absent, and \<open>.strip()\<close> raises \<open>AttributeError\<close> on a value that is not a
  \<open>str\<close>.
\<close>

definition REQUIRED_FIELDS :: "string list" where
  "REQUIRED_FIELDS =
     [''entity'', ''attribute'', ''value'', ''source_document'', ''year_or_season'', ''text'']"

text \<open>\<open>isinstance(chunk.get(k), str) and chunk[k].strip()\<close>.\<close>

definition nonempty_str :: "json option \<Rightarrow> bool" where
  "nonempty_str v = (case v of Some (JStr s) \<Rightarrow> strip s \<noteq> [] | _ \<Rightarrow> False)"

definition missing_fields :: "py_dict \<Rightarrow> string list" where
  "missing_fields chunk =
     concat (map (\<lambda>field. if chunk field = None then [''Missing field: '' @ field] else [])
               REQUIRED_FIELDS)"

definition atomicity_errors :: "py_dict \<Rightarrow> string list" where
  "atomicity_errors chunk =
     (if \<not> nonempty_str (chunk ''entity'') then [''Entity must be a non-empty string''] else [])
   @ (if \<not> nonempty_str (chunk ''attribute'') then [''Attribute must be a non-empty string''] else [])
   @ (if \<not> nonempty_str (chunk ''value'') then [''Value must be a non-empty string''] else [])
   @ (if \<not> nonempty_str (chunk ''text'') then [''Text must be a non-empty string''] else [])"

definition structure_errors :: "string \<Rightarrow> string list" where
  "structure_errors text =
     (if 1 < count_list text CHR ''.'' \<or> CHR 0x0A \<in> set text \<or> 40 < length (split text)
      then [''Text should be a single factual sentence (not a paragraph or list)'']
      else [])"

definition validate_chunk :: "py_dict \<Rightarrow> int \<Rightarrow> py_error + string list" where
  "validate_chunk chunk idx =
     (let errors = missing_fields chunk @ atomicity_errors chunk
      in case chunk ''text'' of
           None \<Rightarrow> Inl (KeyError ''text'')
         | Some (JStr s) \<Rightarrow>
             (let text = strip s;
                  errors = errors @ structure_errors text
              in Inr (map (\<lambda>err. ''[Chunk '' @ str_int idx @ ''] '' @ err) errors))
         | Some _ \<Rightarrow> Inl AttributeError)"

section \<open>Atomic fact extractor\<close>

text \<open>
  \<open>extract_atomic_facts\<close> of \<open>07_parse_core_atomic.py\<close>. A fact is the dict the
  code appends: the six keys are the fields of the record (\<open>value\<close> and \<open>text\<close> are
  \<open>fact_value\<close> and \<open>fact_text\<close>).
\<close>

record atomic_fact =
  entity :: string
  attribute :: string
  fact_value :: string
  source_document :: string
  year_or_season :: string
  fact_text :: string

text \<open>\<open>sub in s\<close> for strings.\<close>

fun contains :: "string \<Rightarrow> string \<Rightarrow> bool" where
  "contains sub [] = (sub = [])"
| "contains sub (c # cs) = (prefix sub (c # cs) \<or> contains sub cs)"

text \<open>\<open>re.sub(r"\s+", " ", s)\<close>: every maximal run of whitespace becomes one space.\<close>

function collapse_ws :: "string \<Rightarrow> string" where
  "collapse_ws [] = []"
| "collapse_ws (c # cs) =
     (if is_space c then CHR '' '' # collapse_ws (dropWhile is_space cs)
      else c # collapse_ws cs)"
  by pat_completeness auto
termination
  by (relation "measure length") (auto simp: le_imp_less_Suc length_dropWhile_le)

text \<open>
  A park rule \<open>(park, r"LABEL([^,]+)")\<close> is kept as the pair of the park and the literal
  \<open>LABEL\<close> (for LEGOLAND the pattern's \<open>\(\<close> and \<open>\)\<close> are the literal parentheses).
  \<open>re.search\<close> returns the leftmost position where \<open>LABEL\<close> is followed by at least one
  character other than a comma; group 1 is the longest comma-free run from there.
\<close>

fun search_rule :: "string \<Rightarrow> string \<Rightarrow> string option" where
  "search_rule label [] = None"
| "search_rule label (c # cs) =
     (let rest = drop (length label) (c # cs)
      in if prefix label (c # cs) \<and> rest \<noteq> [] \<and> hd rest \<noteq> CHR '',''
         then Some (takeWhile (\<lambda>x. x \<noteq> CHR '','') rest)
         else search_rule label cs)"

definition park_rules :: "(string \<times> string) list" where
  "park_rules =
     [(''Magic Kingdom'', ''Magic Kingdom: ''),
      (''EPCOT'', ''EPCOT: ''),
      (''Hollywood Studios'', ''Hollywood Studios: ''),
      (''Animal Kingdom'', ''Animal Kingdom: ''),
      (''Typhoon Lagoon'', ''Typhoon Lagoon: ''),
      (''Blizzard Beach'', ''Blizzard Beach: ''),
      (''Universal Studios Florida'', ''Universal Studios Florida: ''),
      (''Islands of Adventure'', ''Islands of Adventure: ''),
      (''Universal Volcano Bay'', ''Universal Volcano Bay: ''),
      (''SeaWorld Orlando'', ''SeaWorld Orlando: ''),
      (''Aquatica Orlando'', ''Aquatica Orlando: ''),
      (''Busch Gardens Tampa'', ''Busch Gardens Tampa: ''),
      (''LEGOLAND Florida'', ''LEGOLAND Florida (Winter Haven): ''),
      (''Peppa Pig Theme Park'', ''Peppa Pig Theme Park: '')]"

fun park_loop :: "(string \<times> string) list \<Rightarrow> string \<Rightarrow> string \<Rightarrow> string \<Rightarrow> atomic_fact list" where
  "park_loop [] text source_doc season = []"
| "park_loop ((park, label) # rules) text source_doc season =
     (case search_rule label text of
        Some group1 \<Rightarrow>
          (let hours = strip group1
           in [\<lparr>entity = park, attribute = ''operating_hours'', fact_value = hours,
                source_document = source_doc, year_or_season = season,
                fact_text = park @ '' operating hours during '' @ season @ '': '' @ hours @ ''.''\<rparr>])
      | None \<Rightarrow> [])
     @ park_loop rules text source_doc season"

text \<open>
  \<open>re.split(r"(?<=[.!?])\s+", s)\<close>: the text is cut at every whitespace run that
  follows a \<open>.\<close>, \<open>!\<close> or \<open>?\<close>; the run is dropped. \<open>cur\<close> is the piece read so far.
\<close>

definition is_terminator :: "char \<Rightarrow> bool" where
  "is_terminator c = (c = CHR ''.'' \<or> c = CHR ''!'' \<or> c = CHR ''?'')"

function split_sentences_from :: "string \<Rightarrow> string \<Rightarrow> string list" where
  "split_sentences_from cur [] = [cur]"
| "split_sentences_from cur (c # cs) =
     (if is_space c \<and> cur \<noteq> [] \<and> is_terminator (last cur)
      then cur # split_sentences_from [] (dropWhile is_space cs)
      else split_sentences_from (cur @ [c]) cs)"
  by pat_completeness auto
termination
  by (relation "measure (\<lambda>(cur, s). length s)") (auto simp: le_imp_less_Suc length_dropWhile_le)

definition sentences :: "string \<Rightarrow> string list" where
  "sentences text = filter (\<lambda>s. s \<noteq> []) (map strip (split_sentences_from [] text))"

definition KEYWORDS :: "string list" where
  "KEYWORDS = [''open'', ''close'', ''hour'', ''time'', ''located'', ''entry'']"

fun generic_loop :: "string list \<Rightarrow> string \<Rightarrow> atomic_fact list" where
  "generic_loop [] source_doc = []"
| "generic_loop (sent # rest) source_doc =
     (if 20 < length sent \<and> length sent < 120
         \<and> list_ex (\<lambda>kw. contains kw (lower sent)) KEYWORDS
      then [\<lparr>entity = ''unknown'', attribute = ''generic_factual'', fact_value = sent,
             source_document = source_doc, year_or_season = ''unknown'', fact_text = sent\<rparr>]
      else [])
     @ generic_loop rest source_doc"

definition extract_atomic_facts :: "string \<Rightarrow> string \<Rightarrow> atomic_fact list" where
  "extract_atomic_facts raw source_doc =
     (let season = ''December 2025'';
          text = collapse_ws (strip raw)
      in if contains ''Orlando_Park_Hours_Dez2025'' source_doc
         then park_loop park_rules text source_doc season
            @ (if contains ''Early Entry'' text
               then [\<lparr>entity = ''Walt Disney World Resort'', attribute = ''early_entry_rule'',
                      fact_value = ''30 minutes before official opening for Disney hotel guests'',
                      source_document = source_doc, year_or_season = season,
                      fact_text = ''Walt Disney World Resort offers Early Entry (30 minutes before official opening) for hotel guests during December 2025.''\<rparr>]
               else [])
            @ (if contains ''Early Park Admission'' text
               then [\<lparr>entity = ''Universal Orlando Resort'', attribute = ''early_admission_rule'',
                      fact_value = ''1 hour before official opening for hotel guests'',
                      source_document = source_doc, year_or_season = season,
                      fact_text = ''Universal Orlando Resort offers Early Park Admission (1 hour before official opening) for hotel guests during December 2025.''\<rparr>]
               else [])
            @ (if contains ''Winter Haven'' text
               then [\<lparr>entity = ''LEGOLAND Florida'', attribute = ''location'',
                      fact_value = ''Winter Haven, Florida'',
                      source_document = source_doc, year_or_season = season,
                      fact_text = ''LEGOLAND Florida is located in Winter Haven, Florida.''\<rparr>,
                     \<lparr>entity = ''Peppa Pig Theme Park'', attribute = ''location'',
                      fact_value = ''Winter Haven, Florida'',
                      source_document = source_doc, year_or_season = season,
                      fact_text = ''Peppa Pig Theme Park is located in Winter Haven, Florida.''\<rparr>]
               else [])
         else generic_loop (sentences text) source_doc)"

section \<open>Vector index and layer builds\<close>

text \<open>
  Modelled from the spec: the flat L2 index (section 4.2) is the FAISS library's,
  which is not part of the repository. Vectors are lists of rationals, the
  distance is the exact squared Euclidean one, \<open>search\<close> ranks by ascending distance
  with ties in index order and pads with the sentinel id \<open>-1\<close>; a vector of another
  dimension is a \<open>DimensionMismatch\<close>. \<open>FLT_MAX\<close> stands for the distance reported
  with a sentinel; no caller reads it.
\<close>

type_synonym vec = "rat list"

record flat_index =
  index_d :: nat
  index_vectors :: "vec list"

definition l2 :: "vec \<Rightarrow> vec \<Rightarrow> rat" where
  "l2 x y = sum_list (map (\<lambda>(a, b). (a - b) * (a - b)) (zip x y))"

definition FLT_MAX :: rat where
  "FLT_MAX = 340282346638528859811704183484516925440"

definition IndexFlatL2 :: "nat \<Rightarrow> flat_index" where
  "IndexFlatL2 d = \<lparr>index_d = d, index_vectors = []\<rparr>"

definition ntotal :: "flat_index \<Rightarrow> nat" where
  "ntotal index = length (index_vectors index)"

definition index_add :: "flat_index \<Rightarrow> vec list \<Rightarrow> py_error + flat_index" where
  "index_add index xs =
     (if list_all (\<lambda>x. length x = index_d index) xs
      then Inr (index\<lparr>index_vectors := index_vectors index @ xs\<rparr>)
      else Inl DimensionMismatch)"

definition index_search :: "flat_index \<Rightarrow> vec \<Rightarrow> int \<Rightarrow> py_error + (int \<times> rat) list" where
  "index_search index q k =
     (if length q \<noteq> index_d index then Inl DimensionMismatch
      else let scored = zip (map int [0..<ntotal index]) (map (l2 q) (index_vectors index));
               hits = take (nat k) (sort_key snd scored)
           in Inr (hits @ replicate (nat k - length hits) (- 1, FLT_MAX)))"

text \<open>
  \<open>doc[key]\<close> on a loaded JSON value: a dict (its items, with distinct keys) gives
  the value or \<open>KeyError\<close>; anything else is not subscriptable by a string.
\<close>

definition getitem :: "json \<Rightarrow> string \<Rightarrow> py_error + json" where
  "getitem doc key =
     (case doc of
        JObj items \<Rightarrow> (case map_of items key of Some v \<Rightarrow> Inr v | None \<Rightarrow> Inl (KeyError key))
      | _ \<Rightarrow> Inl TypeError)"

text \<open>
  The sentence encoder is a parameter \<open>encoder\<close>, the vector of one text.
  \<open>json.loads\<close> is the parameter \<open>loads\<close>, with \<open>None\<close> for a line it rejects.
\<close>

fun load_json_lines :: "(string \<Rightarrow> json option) \<Rightarrow> string list \<Rightarrow> py_error + json list" where
  "load_json_lines loads [] = Inr []"
| "load_json_lines loads (line # rest) =
     (case loads line of
        None \<Rightarrow> Inl JSONDecodeError
      | Some doc \<Rightarrow>
          (case load_json_lines loads rest of
             Inl e \<Rightarrow> Inl e
           | Inr docs \<Rightarrow> Inr (doc # docs)))"

text \<open>
  Arrays of vectors. \<open>np.array(rows)\<close> needs rows of one length; the empty list gives
  an array with a single axis, so \<open>shape[1]\<close> of it raises \<open>IndexError\<close>.
  \<open>model.encode(texts)\<close> returns one such array, with one row per text, in order.
\<close>

definition as_array :: "vec list \<Rightarrow> py_error + vec list" where
  "as_array rows =
     (case rows of
        [] \<Rightarrow> Inr []
      | e # es \<Rightarrow>
          if list_all (\<lambda>x. length x = length e) es then Inr rows
          else Inl (ValueError ''inhomogeneous shape''))"

definition shape1 :: "vec list \<Rightarrow> py_error + nat" where
  "shape1 rows = (case rows of [] \<Rightarrow> Inl IndexError | e # es \<Rightarrow> Inr (length e))"

definition encode :: "(string \<Rightarrow> vec) \<Rightarrow> string list \<Rightarrow> py_error + vec list" where
  "encode encoder texts = as_array (map encoder texts)"

text \<open>
  The files of one layer, each \<open>None\<close> while it does not exist: the metadata file (its
  records, one per line), the saved embeddings and the index file. A build takes
  the files as they are and returns the exception it raised, if any, with the files
  as it leaves them: a write that happened before a raise stays.
\<close>

record layer_store =
  metadata_file :: "json list option"
  embeddings_file :: "vec list option"
  index_file :: "flat_index option"

text \<open>
  \<open>rebuild_atomic_core\<close> of \<open>08_rebuild_core_from_atomic.py\<close>. \<open>atomic_file\<close> is the
  content of the atomic facts file, \<open>None\<close> when it cannot be opened. The encoder
  takes strings only. The metadata and the embeddings are written before
  \<open>embeddings.shape[1]\<close> is read.
\<close>

fun fact_texts :: "json list \<Rightarrow> py_error + string list" where
  "fact_texts [] = Inr []"
| "fact_texts (a_fact # rest) =
     (case getitem a_fact ''text'' of
        Inl e \<Rightarrow> Inl e
      | Inr (JStr t) \<Rightarrow>
          (case fact_texts rest of Inl e \<Rightarrow> Inl e | Inr ts \<Rightarrow> Inr (t # ts))
      | Inr _ \<Rightarrow> Inl TypeError)"

definition rebuild_atomic_core ::
  "(string \<Rightarrow> json option) \<Rightarrow> (string \<Rightarrow> vec) \<Rightarrow> string list option \<Rightarrow> layer_store
     \<Rightarrow> py_error option \<times> layer_store" where
  "rebuild_atomic_core loads encoder atomic_file store =
     (case atomic_file of
        None \<Rightarrow> (Some (FileNotFoundError ''data/core_atomic/core_atomic_facts.jsonl''), store)
      | Some lines \<Rightarrow>
          (case load_json_lines loads lines of
             Inl e \<Rightarrow> (Some e, store)
           | Inr facts \<Rightarrow>
               (case fact_texts facts of
                  Inl e \<Rightarrow> (Some e, store)
                | Inr texts \<Rightarrow>
                    (case encode encoder texts of
                       Inl e \<Rightarrow> (Some e, store)
                     | Inr embeddings \<Rightarrow>
                         (let store = store\<lparr>metadata_file := Some facts\<rparr>;
                              store = store\<lparr>embeddings_file := Some embeddings\<rparr>
                          in case shape1 embeddings of
                               Inl e \<Rightarrow> (Some e, store)
                             | Inr d \<Rightarrow>
                                 (case index_add (IndexFlatL2 d) embeddings of
                                    Inl e \<Rightarrow> (Some e, store)
                                  | Inr index \<Rightarrow>
                                      (None, store\<lparr>index_file := Some index\<rparr>)))))))"

text \<open>
  \<open>embed_and_save_layer\<close> of \<open>04_build_auxiliary_layers.py\<close>. The loop over \<open>docs\<close>
  carries \<open>all_chunks\<close> and \<open>all_embeddings\<close>; the inner loop over
  \<open>enumerate(zip(chunks, embeddings))\<close> appends one record and one vector per pair.
  The metadata file is written after the loop, before \<open>np.array(all_embeddings)\<close> is
  formed and its \<open>shape[1]\<close> read.
\<close>

fun chunk_records :: "json \<Rightarrow> nat \<Rightarrow> (string \<times> vec) list \<Rightarrow> json list" where
  "chunk_records file_name i [] = []"
| "chunk_records file_name i ((chunk, emb) # rest) =
     JObj [(''source_file'', file_name), (''chunk_id'', JNum (of_nat i)),
           (''text'', JStr chunk), (''char_count'', JNum (of_nat (length chunk)))]
     # chunk_records file_name (Suc i) rest"

fun layer_loop ::
  "(string \<Rightarrow> vec) \<Rightarrow> json list \<Rightarrow> json list \<times> vec list \<Rightarrow> py_error + json list \<times> vec list" where
  "layer_loop encoder [] (all_chunks, all_embeddings) = Inr (all_chunks, all_embeddings)"
| "layer_loop encoder (doc # docs) (all_chunks, all_embeddings) =
     (case getitem doc ''content'' of
        Inl e \<Rightarrow> Inl e
      | Inr (JStr content) \<Rightarrow>
          (case simple_token_split content 512 50 of
             Inl e \<Rightarrow> Inl e
           | Inr chunks \<Rightarrow>
               (case encode encoder chunks of
                  Inl e \<Rightarrow> Inl e
                | Inr embeddings \<Rightarrow>
                    (let pairs = zip chunks embeddings
                     in if pairs = [] then layer_loop encoder docs (all_chunks, all_embeddings)
                        else case getitem doc ''file_name'' of
                               Inl e \<Rightarrow> Inl e
                             | Inr file_name \<Rightarrow>
                                 layer_loop encoder docs
                                   (all_chunks @ chunk_records file_name 0 pairs,
                                    all_embeddings @ map snd pairs))))
      | Inr _ \<Rightarrow> Inl AttributeError)"

definition embed_and_save_layer ::
  "(string \<Rightarrow> vec) \<Rightarrow> json list \<Rightarrow> layer_store \<Rightarrow> py_error option \<times> layer_store" where
  "embed_and_save_layer encoder docs store =
     (case layer_loop encoder docs ([], []) of
        Inl e \<Rightarrow> (Some e, store)
      | Inr (all_chunks, all_embeddings) \<Rightarrow>
          (let store = store\<lparr>metadata_file := Some all_chunks\<rparr>
           in case as_array all_embeddings of
                Inl e \<Rightarrow> (Some e, store)
              | Inr embeddings_np \<Rightarrow>
                  (case shape1 embeddings_np of
                     Inl e \<Rightarrow> (Some e, store)
                   | Inr d \<Rightarrow>
                       (case index_add (IndexFlatL2 d) embeddings_np of
                          Inl e \<Rightarrow> (Some e, store)
                        | Inr index \<Rightarrow> (None, store\<lparr>index_file := Some index\<rparr>)))))"

text \<open>A record and a vector are paired when the vector encodes the record's text.\<close>

definition paired :: "(string \<Rightarrow> vec) \<Rightarrow> json \<Rightarrow> vec \<Rightarrow> bool" where
  "paired encoder doc v = (\<exists>t. getitem doc ''text'' = Inr (JStr t) \<and> v = encoder t)"

section \<open>Layer retrieval\<close>

text \<open>
  The files a retrieval reads: the index files and the metadata files (their
  lines), by path; a path that cannot be read is \<open>None\<close>.
\<close>

record files =
  index_files :: "string \<rightharpoonup> flat_index"
  meta_files :: "string \<rightharpoonup> string list"

text \<open>\<open>xs[i]\<close> for an integer \<open>i\<close>: a negative index counts from the end.\<close>

definition list_getitem :: "'a list \<Rightarrow> int \<Rightarrow> py_error + 'a" where
  "list_getitem xs i =
     (if 0 \<le> i \<and> i < int (length xs) then Inr (xs ! nat i)
      else if i < 0 \<and> - int (length xs) \<le> i then Inr (xs ! nat (int (length xs) + i))
      else Inl IndexError)"

text \<open>
  \<open>load_index_and_metadata\<close> and \<open>retrieve\<close> of \<open>05_test_layers.py\<close>; \<open>layer_paths\<close>
  is the \<open>if ... elif ... else\<close> chain that picks the two paths or raises.
  \<open>faiss.read_index\<close> raises \<open>RuntimeError\<close> and \<open>open\<close> raises \<open>FileNotFoundError\<close> on
  a missing file.
\<close>

definition layer_paths :: "string \<Rightarrow> py_error + string \<times> string" where
  "layer_paths layer =
     (if layer = ''core''
      then Inr (''data/index/faiss.index'', ''data/embeddings/metadata.jsonl'')
      else if layer = ''context''
      then Inr (''data/context_intelligence/context_intelligence.faiss'',
                ''data/context_intelligence/context_intelligence_metadata.jsonl'')
      else if layer = ''strategy''
      then Inr (''data/experience_strategy/experience_strategy.faiss'',
                ''data/experience_strategy/experience_strategy_metadata.jsonl'')
      else Inl (ValueError ''Layer must be: core, context, or strategy''))"

definition load_index_and_metadata ::
  "(string \<Rightarrow> json option) \<Rightarrow> files \<Rightarrow> string \<Rightarrow> py_error + flat_index \<times> json list" where
  "load_index_and_metadata loads fs layer =
     (case layer_paths layer of
        Inl e \<Rightarrow> Inl e
      | Inr (index_path, meta_path) \<Rightarrow>
          (case index_files fs index_path of
             None \<Rightarrow> Inl (RuntimeError index_path)
           | Some index \<Rightarrow>
               (case meta_files fs meta_path of
                  None \<Rightarrow> Inl (FileNotFoundError meta_path)
                | Some lines \<Rightarrow>
                    (case load_json_lines loads lines of
                       Inl e \<Rightarrow> Inl e
                     | Inr metadata \<Rightarrow> Inr (index, metadata)))))"

record retrieval_result =
  result_layer :: string
  result_source :: json
  text_preview :: json
  score :: rat

text \<open>
  \<open>doc.get("file_name", doc.get("source_file"))\<close> needs a dict; a missing key is
  \<open>None\<close>.
\<close>

definition doc_source :: "json \<Rightarrow> py_error + json" where
  "doc_source doc =
     (case doc of
        JObj items \<Rightarrow>
          (case map_of items ''file_name'' of
             Some v \<Rightarrow> Inr v
           | None \<Rightarrow> (case map_of items ''source_file'' of Some v \<Rightarrow> Inr v | None \<Rightarrow> Inr JNull))
      | _ \<Rightarrow> Inl AttributeError)"

text \<open>
  \<open>(t[:250] + "...") if len(t) > 250 else t\<close> for \<open>t = doc["text"]\<close>: a value
  without a length, and a long value that is not a string, are a \<open>TypeError\<close>.
\<close>

definition preview_250 :: "json \<Rightarrow> py_error + json" where
  "preview_250 t =
     (case t of
        JStr s \<Rightarrow> Inr (if 250 < length s then JStr (take 250 s @ ''...'') else JStr s)
      | JArr xs \<Rightarrow> if 250 < length xs then Inl TypeError else Inr (JArr xs)
      | JObj items \<Rightarrow> if 250 < length items then Inl TypeError else Inr (JObj items)
      | _ \<Rightarrow> Inl TypeError)"

fun hit_loop :: "string \<Rightarrow> json list \<Rightarrow> (int \<times> rat) list \<Rightarrow> py_error + retrieval_result list" where
  "hit_loop layer metadata [] = Inr []"
| "hit_loop layer metadata ((idx, sc) # hits) =
     (if idx = - 1 then hit_loop layer metadata hits
      else case list_getitem metadata idx of
             Inl e \<Rightarrow> Inl e
           | Inr doc \<Rightarrow>
               (case doc_source doc of
                  Inl e \<Rightarrow> Inl e
                | Inr source \<Rightarrow>
                    (case getitem doc ''text'' of
                       Inl e \<Rightarrow> Inl e
                     | Inr t \<Rightarrow>
                         (case preview_250 t of
                            Inl e \<Rightarrow> Inl e
                          | Inr preview \<Rightarrow>
                              (case hit_loop layer metadata hits of
                                 Inl e \<Rightarrow> Inl e
                               | Inr results \<Rightarrow>
                                   Inr (\<lparr>result_layer = layer, result_source = source,
                                         text_preview = preview, score = sc\<rparr> # results))))))"

definition retrieve_test_layers ::
  "(string \<Rightarrow> json option) \<Rightarrow> (string \<Rightarrow> vec) \<Rightarrow> files \<Rightarrow> string \<Rightarrow> string \<Rightarrow> int
     \<Rightarrow> py_error + retrieval_result list" where
  "retrieve_test_layers loads encoder fs query layer top_k =
     (case load_index_and_metadata loads fs layer of
        Inl e \<Rightarrow> Inl e
      | Inr (index, metadata) \<Rightarrow>
          (case index_search index (encoder query) top_k of
             Inl e \<Rightarrow> Inl e
           | Inr hits \<Rightarrow> hit_loop layer metadata hits))"

text \<open>
  \<open>retrieve\<close> of \<open>11_answer_with_llm.py\<close>. Everything after the choice of the path
  runs under \<open>try ... except Exception\<close>, which returns the fallback list. A result
  is the dict with the single key \<open>text_preview\<close>, kept as its string.
\<close>

definition meta_path_of :: "string \<Rightarrow> string" where
  "meta_path_of layer =
     (if layer = ''core'' then ''data/embeddings/metadata.jsonl''
      else if layer = ''context''
      then ''data/context_intelligence/context_intelligence_metadata.jsonl''
      else ''data/experience_strategy/experience_strategy_metadata.jsonl'')"

text \<open>
  \<open>doc.get("text", "")[:300] + ("..." if len(doc.get("text", "")) > 300 else "")\<close>:
  \<open>doc\<close> must be a dict, and a \<open>text\<close> that is not a string cannot be sliced, or
  cannot be concatenated with a string.
\<close>

definition preview_300 :: "json \<Rightarrow> py_error + string" where
  "preview_300 doc =
     (case doc of
        JObj items \<Rightarrow>
          (case map_of items ''text'' of
             None \<Rightarrow> Inr ''''
           | Some (JStr t) \<Rightarrow> Inr (take 300 t @ (if 300 < length t then ''...'' else ''''))
           | Some _ \<Rightarrow> Inl TypeError)
      | _ \<Rightarrow> Inl AttributeError)"

fun preview_loop :: "(string \<Rightarrow> json option) \<Rightarrow> string list \<Rightarrow> py_error + string list" where
  "preview_loop loads [] = Inr []"
| "preview_loop loads (line # rest) =
     (case loads line of
        None \<Rightarrow> Inl JSONDecodeError
      | Some doc \<Rightarrow>
          (case preview_300 doc of
             Inl e \<Rightarrow> Inl e
           | Inr p \<Rightarrow>
               (case preview_loop loads rest of
                  Inl e \<Rightarrow> Inl e
                | Inr results \<Rightarrow> Inr (p # results))))"

definition retrieve_answer_with_llm ::
  "(string \<Rightarrow> json option) \<Rightarrow> files \<Rightarrow> string \<Rightarrow> string \<Rightarrow> int \<Rightarrow> string list" where
  "retrieve_answer_with_llm loads fs query layer top_k =
     (case (case meta_files fs (meta_path_of layer) of
              None \<Rightarrow> Inl (FileNotFoundError (meta_path_of layer))
            | Some lines \<Rightarrow> preview_loop loads (take (nat top_k) lines)) of
        Inl e \<Rightarrow> [''General Orlando travel guidance.'']
      | Inr results \<Rightarrow> results)"

section \<open>Chunker: verification\<close>

text \<open>Splitting and joining: \<open>split\<close> returns non-empty words free of whitespace, and
  re-splitting a space-joined list of such words gives the list back.\<close>

lemma split_from_nospace:
  "list_all (\<lambda>c. \<not> is_space c) w \<Longrightarrow> split_from cur (w @ rest) = split_from (cur @ w) rest"
  by (induction w arbitrary: cur) auto

lemma split_from_words:
  "w \<in> set (split_from cur s) \<Longrightarrow> list_all (\<lambda>c. \<not> is_space c) cur
     \<Longrightarrow> w \<noteq> [] \<and> list_all (\<lambda>c. \<not> is_space c) w"
  by (induction cur s rule: split_from.induct) (auto split: if_splits)

lemma split_words: "w \<in> set (split s) \<Longrightarrow> w \<noteq> [] \<and> list_all (\<lambda>c. \<not> is_space c) w"
  unfolding split_def using split_from_words [of w "[]" s] by simp

lemma split_join:
  "list_all (\<lambda>w. w \<noteq> [] \<and> list_all (\<lambda>c. \<not> is_space c) w) ws \<Longrightarrow> split (join '' '' ws) = ws"
proof (induction "'' ''" ws rule: join.induct)
  case 1
  then show ?case by (simp add: split_def)
next
  case (2 w)
  then show ?case
    using split_from_nospace [of w "[]" "[]"] by (simp add: split_def)
next
  case (3 w v ws)
  have sp: "is_space CHR '' ''" by (simp add: is_space_def)
  from 3 have w: "w \<noteq> []" "list_all (\<lambda>c. \<not> is_space c) w" by simp_all
  from 3 have rest: "split_from [] (join '' '' (v # ws)) = v # ws" by (simp add: split_def)
  have "split_from [] (w @ '' '' @ join '' '' (v # ws)) = split_from w ('' '' @ join '' '' (v # ws))"
    using split_from_nospace [OF w(2), of "[]"] by simp
  also have "\<dots> = w # split_from [] (join '' '' (v # ws))"
    using w(1) sp by simp
  finally show ?case using rest by (simp add: split_def)
qed

lemma slice_window:
  "0 \<le> cs \<Longrightarrow> slice xs i (int i + cs) = take (nat cs) (drop i xs)"
  by (auto simp: slice_def Let_def min_def take_all_iff nat_add_distrib nat_diff_distrib)

lemma chunk_count_step:
  fixes n i step :: nat
  assumes "0 < step" "i < n"
  shows "(n - i + step - 1) div step = Suc ((n - (i + step) + step - 1) div step)"
proof (cases "n - i \<le> step")
  case True
  with assms have "(n - i + step - 1) div step = 1"
    by (intro div_nat_eqI) auto
  moreover from True have "(n - (i + step) + step - 1) div step = 0" using assms by simp
  ultimately show ?thesis by simp
next
  case False
  then have "n - i + step - 1 = (n - (i + step) + step - 1) + step" by simp
  then show ?thesis using assms by (metis div_add_self2 Suc_eq_plus1 less_numeral_extra(3))
qed

lemma map_upt_shift: "map f [0..<Suc m] = f 0 # map (\<lambda>k. f (Suc k)) [0..<m]"
proof -
  have "[0..<Suc m] = 0 # map Suc [0..<m]"
    by (simp add: upt_conv_Cons map_Suc_upt del: upt_Suc)
  then show ?thesis by (simp add: comp_def del: upt_Suc)
qed

lemma chunk_loop_closed:
  "0 < step \<Longrightarrow> chunk_loop words cs step i =
     map (\<lambda>k. join '' '' (slice words (i + k * step) (int (i + k * step) + cs)))
       [0..<(length words - i + step - 1) div step]"
proof (induction words cs step i rule: chunk_loop.induct)
  case (1 words cs step i)
  let ?f = "\<lambda>k. join '' '' (slice words (i + k * step) (int (i + k * step) + cs))"
  let ?m = "(length words - (i + step) + step - 1) div step"
  show ?case
  proof (cases "i < length words")
    case True
    have cnt: "(length words - i + step - 1) div step = Suc ?m"
      using chunk_count_step [OF "1.prems" True] .
    have eq: "\<And>k. i + step + k * step = i + Suc k * step" by simp
    have "chunk_loop words cs step (i + step) =
      map (\<lambda>k. join '' '' (slice words (i + step + k * step) (int (i + step + k * step) + cs)))
       [0..<?m]"
      using "1.IH" "1.prems" True by simp
    then have IH: "chunk_loop words cs step (i + step) = map (\<lambda>k. ?f (Suc k)) [0..<?m]"
      by (simp only: eq)
    have "chunk_loop words cs step i = ?f 0 # chunk_loop words cs step (i + step)"
      using True "1.prems" by (subst chunk_loop.simps) simp
    also have "\<dots> = ?f 0 # map (\<lambda>k. ?f (Suc k)) [0..<?m]"
      by (simp only: IH)
    also have "\<dots> = map ?f [0..<Suc ?m]"
      by (rule map_upt_shift [symmetric])
    finally show ?thesis by (simp only: cnt)
  next
    case False
    then have "(length words - i + step - 1) div step = 0" using "1.prems" by simp
    then show ?thesis using False by (subst chunk_loop.simps) simp
  qed
qed

lemma chunk_index_iff:
  fixes n st k :: nat
  assumes "0 < st" "0 < n"
  shows "k < (n + st - 1) div st \<longleftrightarrow> k * st < n"
proof -
  have "k < (n + st - 1) div st \<longleftrightarrow> Suc k \<le> (n + st - 1) div st" by auto
  also have "\<dots> \<longleftrightarrow> Suc k * st \<le> n + st - 1"
    using assms(1) by (simp only: less_eq_div_iff_mult_less_eq)
  also have "\<dots> \<longleftrightarrow> k * st < n" using assms by auto
  finally show ?thesis .
qed

lemma split_take_drop:
  "split (join '' '' (take w (drop i (split s)))) = take w (drop i (split s))"
proof (rule split_join)
  have "\<forall>x \<in> set (take w (drop i (split s))). x \<noteq> [] \<and> list_all (\<lambda>c. \<not> is_space c) x"
    using split_words by (meson in_set_dropD in_set_takeD)
  then show "list_all (\<lambda>w. w \<noteq> [] \<and> list_all (\<lambda>c. \<not> is_space c) w) (take w (drop i (split s)))"
    by (simp add: list_all_iff)
qed

text \<open>
  Claim C2. For \<open>window_size > overlap \<ge> 0\<close>, \<open>simple_token_split\<close> returns normally.
  A text of at most \<open>window_size\<close> whitespace-delimited tokens gives the single chunk
  \<open>[text]\<close>. Otherwise chunk \<open>k\<close> is the space-joined window of \<open>window_size\<close>
  tokens starting at token \<open>k * (window_size - overlap)\<close>; there is a chunk for every
  such start inside the text (so the final, possibly partial, window is included);
  every token position lies in some chunk; and no chunk has more than
  \<open>window_size\<close> tokens.
\<close>

theorem simple_token_split_contract:
  assumes "0 \<le> overlap" and "overlap < window_size"
  shows "\<exists>chunks. simple_token_split text window_size overlap = Inr chunks
     \<and> (int (length (split text)) \<le> window_size \<longrightarrow> chunks = [text])
     \<and> (window_size < int (length (split text)) \<longrightarrow>
          (\<forall>k. k < length chunks \<longleftrightarrow> k * nat (window_size - overlap) < length (split text))
        \<and> (\<forall>k < length chunks.
              chunks ! k = join '' '' (take (nat window_size)
                             (drop (k * nat (window_size - overlap)) (split text)))
            \<and> split (chunks ! k) = take (nat window_size)
                             (drop (k * nat (window_size - overlap)) (split text)))
        \<and> (\<forall>j < length (split text). \<exists>k < length chunks.
              k * nat (window_size - overlap) \<le> j
            \<and> j < k * nat (window_size - overlap) + nat window_size
            \<and> split (chunks ! k) ! (j - k * nat (window_size - overlap)) = split text ! j))
     \<and> (\<forall>c \<in> set chunks. length (split c) \<le> nat window_size)"
proof (cases "int (length (split text)) \<le> window_size")
  case True
  then show ?thesis by (simp add: simple_token_split_def)
next
  case False
  define ws where "ws = split text"
  define w where "w = nat window_size"
  define st where "st = nat (window_size - overlap)"
  define m where "m = (length ws + st - 1) div st"
  define chunks where "chunks = map (\<lambda>k. join '' '' (take w (drop (k * st) ws))) [0..<m]"
  have st: "0 < st" "st \<le> w" and n: "w < length ws" "0 < length ws"
    using assms False by (auto simp: st_def w_def ws_def)
  have nonneg: "0 \<le> window_size" using assms by simp
  have "chunk_loop ws window_size st 0 =
      map (\<lambda>k. join '' '' (slice ws (0 + k * st) (int (0 + k * st) + window_size)))
        [0..<(length ws - 0 + st - 1) div st]"
    by (rule chunk_loop_closed [OF st(1)])
  then have loop: "chunk_loop ws window_size st 0 = chunks"
    unfolding chunks_def m_def w_def
    by (simp only: slice_window [OF nonneg] add_0 diff_zero)
  have step: "window_size - overlap \<noteq> 0" "\<not> window_size - overlap < 0"
    using assms by simp_all
  have res: "simple_token_split text window_size overlap = Inr chunks"
    using False step loop
    by (simp add: simple_token_split_def Let_def ws_def st_def)
  have len: "length chunks = m" by (simp add: chunks_def)
  have idx: "\<And>k. k < m \<longleftrightarrow> k * st < length ws"
    unfolding m_def using chunk_index_iff [OF st(1) n(2)] .
  have nth: "\<And>k. k < m \<Longrightarrow> chunks ! k = join '' '' (take w (drop (k * st) ws))"
    by (simp add: chunks_def)
  have spl: "\<And>k. k < m \<Longrightarrow> split (chunks ! k) = take w (drop (k * st) ws)"
    using nth split_take_drop by (simp add: ws_def)
  have cover: "\<exists>k < m. k * st \<le> j \<and> j < k * st + w \<and> split (chunks ! k) ! (j - k * st) = ws ! j"
    if j: "j < length ws" for j
  proof -
    let ?k = "j div st"
    have a: "?k * st \<le> j" by simp
    have "j < ?k * st + st" using st(1) by (metis add.commute dividend_less_div_times)
    then have b: "j < ?k * st + w" using st(2) by simp
    have k: "?k < m" using idx a j by (meson le_less_trans)
    have lt: "j - ?k * st < w" using a b by linarith
    have e: "?k * st + (j - ?k * st) = j" using a by linarith
    have "take w (drop (?k * st) ws) ! (j - ?k * st) = drop (?k * st) ws ! (j - ?k * st)"
      using lt by (rule nth_take)
    also have "\<dots> = ws ! (?k * st + (j - ?k * st))"
    proof (rule nth_drop)
      show "?k * st \<le> length ws" using a j by (rule le_trans [OF _ less_imp_le])
    qed
    finally have "split (chunks ! ?k) ! (j - ?k * st) = ws ! j"
      using spl [OF k] e by simp
    then show ?thesis using a b k by blast
  qed
  have bound: "\<forall>c \<in> set chunks. length (split c) \<le> w"
  proof
    fix c assume "c \<in> set chunks"
    then obtain k where "k < m" "c = chunks ! k" by (metis in_set_conv_nth len)
    then show "length (split c) \<le> w" using spl by simp
  qed
  show ?thesis
    using False res len idx nth spl cover bound
    unfolding ws_def [symmetric] w_def [symmetric] st_def [symmetric]
    by (intro exI [of _ chunks]) simp
qed

theorem simple_token_split_contract_witness:
  "(0::int) \<le> 1 \<and> (1::int) < 3
   \<and> simple_token_split ''a  bb ccc dd e f g'' 3 1 = Inr [''a bb ccc'', ''ccc dd e'', ''e f g'', ''g'']
   \<and> simple_token_split ''a  bb ccc'' 3 1 = Inr [''a  bb ccc'']
   \<and> (\<exists>chunks. simple_token_split ''a  bb ccc dd e f g'' 3 1 = Inr chunks
        \<and> (\<forall>c \<in> set chunks. length (split c) \<le> nat 3))"
proof -
  have h1: "(0::int) \<le> 1" and h2: "(1::int) < 3" by simp_all
  have e1: "simple_token_split ''a  bb ccc dd e f g'' 3 1
      = Inr [''a bb ccc'', ''ccc dd e'', ''e f g'', ''g'']" by code_simp
  have e2: "simple_token_split ''a  bb ccc'' 3 1 = Inr [''a  bb ccc'']" by code_simp
  from simple_token_split_contract [OF h1 h2, of "''a  bb ccc dd e f g''"]
  have "\<exists>chunks. simple_token_split ''a  bb ccc dd e f g'' 3 1 = Inr chunks
        \<and> (\<forall>c \<in> set chunks. length (split c) \<le> nat 3)" by blast
  with h1 h2 e1 e2 show ?thesis by blast
qed

section \<open>Grounding verifier: verification\<close>

lemma time_loop_finite:
  "finite (fst st) \<Longrightarrow> finite (fst (time_loop ms st))"
  by (induction ms st rule: time_loop.induct) (simp_all add: Let_def)

lemma finite_tokenize: "finite (tokenize t)"
proof -
  obtain tokens residual where
    tl: "time_loop (findall_time (lower t)) ({}, lower t) = (tokens, residual)"
    by (cases "time_loop (findall_time (lower t)) ({}, lower t)")
  have "finite (fst (time_loop (findall_time (lower t)) ({}, lower t)))"
    by (rule time_loop_finite) simp
  then have "finite tokens" using tl by simp
  then show ?thesis by (simp add: tokenize_def Let_def tl)
qed

text \<open>Rounding to an integer stays between the integers around its argument.\<close>

lemma round_half_even_le: "y \<le> of_int n \<Longrightarrow> round_half_even y \<le> n"
proof -
  assume y: "y \<le> of_int n"
  then have f: "\<lfloor>y\<rfloor> \<le> n" using floor_mono [of y "of_int n"] by simp
  show ?thesis
  proof (cases "y = of_int \<lfloor>y\<rfloor>")
    case True
    then have "y - of_int \<lfloor>y\<rfloor> = 0" by simp
    then show ?thesis using f by (simp add: round_half_even_def Let_def)
  next
    case False
    then have "of_int \<lfloor>y\<rfloor> < y" using of_int_floor_le [of y] by linarith
    then have "of_int \<lfloor>y\<rfloor> < (of_int n :: rat)" using y by linarith
    then have "\<lfloor>y\<rfloor> < n" by (simp only: of_int_less_iff)
    then show ?thesis by (simp add: round_half_even_def Let_def)
  qed
qed

lemma round_half_even_ge: "of_int n \<le> y \<Longrightarrow> n \<le> round_half_even y"
proof -
  assume "of_int n \<le> y"
  then have "n \<le> \<lfloor>y\<rfloor>" by (simp add: le_floor_iff)
  then show ?thesis by (simp add: round_half_even_def Let_def)
qed

lemma bit_length_mono: "p \<le> q \<Longrightarrow> bit_length p \<le> bit_length q"
proof (induction p arbitrary: q rule: bit_length.induct)
  case (1 n)
  show ?case
  proof (cases "n \<le> 0")
    case True
    then show ?thesis by (subst bit_length.simps) simp
  next
    case False
    then have q: "\<not> q \<le> 0" using "1.prems" by simp
    have "n div 2 \<le> q div 2" using "1.prems" by (rule zdiv_mono1) simp
    then have "bit_length (n div 2) \<le> bit_length (q div 2)" using "1.IH" False by simp
    then show ?thesis
      using False q by (subst bit_length.simps, subst (2) bit_length.simps) simp
  qed
qed

lemma log2_floor_unit: "0 < x \<Longrightarrow> x \<le> 1 \<Longrightarrow> log2_floor x \<le> 0"
proof -
  assume x: "0 < x" "x \<le> 1"
  obtain p q where pq: "quotient_of x = (p, q)" by (cases "quotient_of x")
  then have q: "0 < q" and xq: "x = of_int p / of_int q"
    using quotient_of_denom_pos quotient_of_div by blast+
  have "of_int p \<le> (of_int q :: rat)" using x(2) q xq by (simp add: divide_le_eq)
  then have "p \<le> q" by (simp only: of_int_le_iff)
  then have "int (bit_length p) - int (bit_length q) \<le> 0"
    using bit_length_mono by simp
  then show ?thesis by (auto simp: log2_floor_def pq Let_def)
qed

lemma to_double_0: "to_double 0 = 0"
  by (simp add: to_double_def)

lemma to_double_1: "to_double 1 = 1"
  by code_simp

lemma to_double_range:
  assumes "0 \<le> x" "x \<le> 1"
  shows "0 \<le> to_double x \<and> to_double x \<le> 1"
proof (cases "x = 0")
  case True
  then show ?thesis by (simp add: to_double_def)
next
  case False
  define k where "k = 52 - log2_floor \<bar>x\<bar>"
  define m where "m = round_half_even (scale2 x k)"
  have "log2_floor \<bar>x\<bar> \<le> 0" using assms False by (intro log2_floor_unit) auto
  then have k: "0 \<le> k" by (simp add: k_def)
  have s: "scale2 x k = x * 2 ^ nat k" using k by (simp add: scale2_def)
  have "(0::rat) \<le> x * 2 ^ nat k" using assms(1) by simp
  then have m0: "0 \<le> m" unfolding m_def s using round_half_even_ge [of 0] by simp
  have "x * 2 ^ nat k \<le> of_int (2 ^ nat k)" using assms(2) by (simp add: mult_le_cancel_right1)
  then have m1: "m \<le> 2 ^ nat k" unfolding m_def s by (rule round_half_even_le)
  have td: "to_double x = scale2 (of_int m) (- k)"
    using False by (simp add: to_double_def Let_def k_def m_def)
  have val: "scale2 (of_int m) (- k) = of_int m / 2 ^ nat k"
    using k by (cases "k = 0") (auto simp: scale2_def)
  have "of_int m \<le> (2 ^ nat k :: rat)"
    using m1 by (metis of_int_le_iff of_int_numeral of_int_power)
  then have "of_int m / 2 ^ nat k \<le> (1 :: rat)" by (simp add: divide_le_eq)
  moreover have "0 \<le> (of_int m / 2 ^ nat k :: rat)" using m0 by simp
  ultimately show ?thesis by (simp add: td val)
qed

lemma round4_0: "round4 0 = 0"
  by (simp add: round4_def round_half_even_def to_double_def)

lemma round4_1: "round4 1 = 1"
  by code_simp

lemma round4_range:
  assumes "0 \<le> x" "x \<le> 1"
  shows "0 \<le> round4 x \<and> round4 x \<le> 1"
proof -
  define r where "r = round_half_even (x * 10000)"
  have "(of_int 0 :: rat) \<le> x * 10000" using assms(1) by simp
  then have r0: "0 \<le> r" unfolding r_def by (rule round_half_even_ge)
  have "x * 10000 \<le> of_int 10000" using assms(2) by simp
  then have r1: "r \<le> 10000" unfolding r_def by (rule round_half_even_le)
  have "0 \<le> (of_int r / 10000 :: rat)" using r0 by simp
  moreover have "(of_int r / 10000 :: rat) \<le> 1" using r1 by simp
  ultimately show ?thesis
    using to_double_range by (simp add: round4_def r_def)
qed

lemma check_grounding_cases:
  "check_grounding q ctx a =
     (if ctx = [] \<or> a = [] \<or> tokenize (join '' '' ctx) \<union> tokenize a = {} then Inr 0
      else Inr (round4 (to_double (of_nat (card (tokenize (join '' '' ctx) \<inter> tokenize a))
                        / of_nat (card (tokenize (join '' '' ctx) \<union> tokenize a))))))"
proof -
  let ?U = "tokenize (join '' '' ctx) \<union> tokenize a"
  have fin: "finite ?U" using finite_tokenize by simp
  show ?thesis
  proof (cases "?U = {}")
    case True
    then show ?thesis by (simp add: check_grounding_def Let_def)
  next
    case False
    then have "card ?U \<noteq> 0" using fin by (simp only: card_eq_0_iff) simp
    then show ?thesis using False
      by (auto simp: check_grounding_def Let_def truediv_def)
  qed
qed

lemma jaccard_range:
  fixes A B :: "string set"
  assumes "finite A" "finite B" "A \<union> B \<noteq> {}"
  shows "0 \<le> (of_nat (card (A \<inter> B)) / of_nat (card (A \<union> B)) :: rat)"
    and "(of_nat (card (A \<inter> B)) / of_nat (card (A \<union> B)) :: rat) \<le> 1"
proof -
  have "card (A \<inter> B) \<le> card (A \<union> B)"
    using assms by (intro card_mono) auto
  moreover have "0 < card (A \<union> B)" using assms by (simp add: card_gt_0_iff)
  ultimately show "(of_nat (card (A \<inter> B)) / of_nat (card (A \<union> B)) :: rat) \<le> 1"
    by (simp add: divide_le_eq_1)
  show "0 \<le> (of_nat (card (A \<inter> B)) / of_nat (card (A \<union> B)) :: rat)" by simp
qed

text \<open>
  Claim C3. \<open>check_grounding\<close> always returns a score (it never raises, in particular
  never \<open>ZeroDivisionError\<close>), the score lies in \<open>[0, 1]\<close>, and it is 0 when the
  context list is empty, when the answer text is empty, and when the context or
  the answer has no tokens.
\<close>

theorem check_grounding_empty_inputs:
  "(\<exists>r. check_grounding q ctx a = Inr r \<and> 0 \<le> r \<and> r \<le> 1)
   \<and> check_grounding q [] a = Inr 0
   \<and> check_grounding q ctx [] = Inr 0
   \<and> (tokenize (join '' '' ctx) = {} \<or> tokenize a = {} \<longrightarrow> check_grounding q ctx a = Inr 0)"
proof (intro conjI impI)
  show "\<exists>r. check_grounding q ctx a = Inr r \<and> 0 \<le> r \<and> r \<le> 1"
  proof (cases "ctx = [] \<or> a = [] \<or> tokenize (join '' '' ctx) \<union> tokenize a = {}")
    case True
    then show ?thesis by (simp add: check_grounding_cases)
  next
    case False
    let ?j = "of_nat (card (tokenize (join '' '' ctx) \<inter> tokenize a))
                / of_nat (card (tokenize (join '' '' ctx) \<union> tokenize a)) :: rat"
    have "0 \<le> ?j" "?j \<le> 1"
      using jaccard_range [OF finite_tokenize finite_tokenize] False by blast+
    then have "0 \<le> to_double ?j \<and> to_double ?j \<le> 1" by (rule to_double_range)
    then have "0 \<le> round4 (to_double ?j) \<and> round4 (to_double ?j) \<le> 1"
      using round4_range by blast
    then show ?thesis using False by (simp add: check_grounding_cases)
  qed
  show "check_grounding q [] a = Inr 0" by (simp add: check_grounding_def)
  show "check_grounding q ctx [] = Inr 0" by (simp add: check_grounding_def)
  assume "tokenize (join '' '' ctx) = {} \<or> tokenize a = {}"
  then have "tokenize (join '' '' ctx) \<inter> tokenize a = {}" by auto
  then show "check_grounding q ctx a = Inr 0"
    by (simp add: check_grounding_cases round4_0 to_double_0)
qed

theorem check_grounding_empty_inputs_witness:
  "tokenize ''?!'' = {}
   \<and> check_grounding ''When does it open?'' [''Magic Kingdom opens at 9:00.''] ''?!'' = Inr 0
   \<and> check_grounding ''When does it open?'' [''?!''] ''It opens at 9h00.'' = Inr 0
   \<and> check_grounding ''When does it open?'' [''Magic Kingdom opens at 9:00.''] ''It opens at 9h00.''
        = Inr (1 / 2)"
proof -
  have e: "tokenize ''?!'' = {}" by code_simp
  have j: "join '' '' [''?!''] = ''?!''" by simp
  have a: "check_grounding ''When does it open?'' [''Magic Kingdom opens at 9:00.''] ''?!'' = Inr 0"
    using check_grounding_empty_inputs [of "''When does it open?''"
        "[''Magic Kingdom opens at 9:00.'']" "''?!''"] e by blast
  have b: "check_grounding ''When does it open?'' [''?!''] ''It opens at 9h00.'' = Inr 0"
    using check_grounding_empty_inputs [of "''When does it open?''" "[''?!'']"
        "''It opens at 9h00.''"] e j by simp
  have c: "check_grounding ''When does it open?'' [''Magic Kingdom opens at 9:00.''] ''It opens at 9h00.''
        = Inr (1 / 2)" by code_simp
  from e a b c show ?thesis by blast
qed

lemma tokenize_Nil: "tokenize [] = {}"
  by (simp add: tokenize_def lower_def strip_punctuation_def split_def)

text \<open>A text without a time pattern, and the tokens of space-joined texts.\<close>

lemma match_time_Nil: "match_time [] = None"
  by (simp add: match_time_def)

lemma findall_time_Nil_iff:
  "findall_time s = [] \<longleftrightarrow> (\<forall>i. match_time (drop i s) = None)"
proof (induction s)
  case Nil
  then show ?case by (simp add: match_time_Nil)
next
  case (Cons c cs)
  show ?case
  proof
    assume a: "findall_time (c # cs) = []"
    then have m: "match_time (c # cs) = None" by (auto split: option.splits)
    then have "findall_time cs = []" using a by simp
    then have r: "\<forall>i. match_time (drop i cs) = None" using Cons.IH by simp
    show "\<forall>i. match_time (drop i (c # cs)) = None"
    proof
      fix i show "match_time (drop i (c # cs)) = None"
        using m r by (cases i) simp_all
    qed
  next
    assume a: "\<forall>i. match_time (drop i (c # cs)) = None"
    then have m: "match_time (c # cs) = None" by (metis drop0)
    have "\<forall>i. match_time (drop i cs) = None"
    proof
      fix i show "match_time (drop i cs) = None" using a [rule_format, of "Suc i"] by simp
    qed
    then have "findall_time cs = []" using Cons.IH by simp
    then show "findall_time (c # cs) = []" using m by simp
  qed
qed

lemma space_no_time: "\<not> is_digit CHR '' ''" "\<not> is_time_sep CHR '' ''"
  by (simp_all add: is_digit_def is_time_sep_def)

lemma time_two_digits_iff:
  "time_two_digits s \<longleftrightarrow>
     (\<exists>a b c d e r. s = a # b # c # d # e # r
        \<and> is_digit a \<and> is_digit b \<and> is_time_sep c \<and> is_digit d \<and> is_digit e)"
  by (cases s rule: time_two_digits.cases) auto

lemma time_one_digit_iff:
  "time_one_digit s \<longleftrightarrow>
     (\<exists>a c d e r. s = a # c # d # e # r
        \<and> is_digit a \<and> is_time_sep c \<and> is_digit d \<and> is_digit e)"
  by (cases s rule: time_one_digit.cases) auto

lemma time_two_digits_before_space:
  "time_two_digits (xs @ CHR '' '' # ys) \<Longrightarrow> time_two_digits xs"
  unfolding time_two_digits_iff
  by (cases xs rule: time_two_digits.cases) (auto simp: space_no_time)

lemma time_one_digit_before_space:
  "time_one_digit (xs @ CHR '' '' # ys) \<Longrightarrow> time_one_digit xs"
  unfolding time_one_digit_iff
  by (cases xs rule: time_one_digit.cases) (auto simp: space_no_time)

lemma match_time_before_space:
  "match_time xs = None \<Longrightarrow> match_time (xs @ CHR '' '' # ys) = None"
  using time_two_digits_before_space [of xs ys] time_one_digit_before_space [of xs ys]
  by (auto simp: match_time_def split: if_splits)

lemma match_time_at_space: "match_time (CHR '' '' # ys) = None"
  by (auto simp: match_time_def time_two_digits_iff time_one_digit_iff space_no_time)

lemma no_time_joined:
  assumes "\<forall>i. match_time (drop i a) = None" "\<forall>i. match_time (drop i b) = None"
  shows "match_time (drop i (a @ CHR '' '' # b)) = None"
proof -
  consider "i < length a" | "i = length a" | "length a < i" by linarith
  then show ?thesis
  proof cases
    case 1
    then have "drop i (a @ CHR '' '' # b) = drop i a @ CHR '' '' # b" by simp
    then show ?thesis using assms(1) match_time_before_space by simp
  next
    case 2
    then have "drop i (a @ CHR '' '' # b) = CHR '' '' # b" by simp
    then show ?thesis by (simp add: match_time_at_space)
  next
    case 3
    then have "drop i (a @ CHR '' '' # b) = drop (i - length a - 1) b"
      by (simp add: drop_Cons')
    then show ?thesis using assms(2) by simp
  qed
qed

lemma lower_space: "lower_char CHR '' '' = CHR '' ''"
  by (simp add: lower_char_def)

lemma join_Cons: "ws \<noteq> [] \<Longrightarrow> join '' '' (w # ws) = w @ CHR '' '' # join '' '' ws"
  by (cases ws) simp_all

lemma split_from_at_space:
  "split_from cur (a @ CHR '' '' # b) = split_from cur a @ split_from [] b"
proof (induction a arbitrary: cur)
  case Nil
  have "is_space CHR '' ''" by (simp add: is_space_def)
  then show ?case by simp
next
  case (Cons c a)
  then show ?case by simp
qed

lemma plain_words_joined:
  "set (split (strip_punctuation (lower (a @ CHR '' '' # b)))) = set (split (strip_punctuation (lower a))) \<union> set (split (strip_punctuation (lower b)))"
proof -
  have "is_space CHR '' ''" by (simp add: is_space_def)
  then have "strip_punctuation (lower (a @ CHR '' '' # b))
      = strip_punctuation (lower a) @ CHR '' '' # strip_punctuation (lower b)"
    by (simp add: strip_punctuation_def lower_def lower_space)
  then show ?thesis by (simp add: split_def split_from_at_space)
qed

lemma tokenize_no_time:
  "findall_time (lower s) = [] \<Longrightarrow> tokenize s = set (split (strip_punctuation (lower s)))"
proof -
  assume "findall_time (lower s) = []"
  moreover have "filter (\<lambda>t. t \<noteq> []) (split x) = split x" for x
    using split_words by (simp add: filter_id_conv)
  ultimately show ?thesis by (simp add: tokenize_def)
qed

lemma joined_no_time:
  "\<forall>c \<in> set ctx. findall_time (lower c) = [] \<Longrightarrow>
     findall_time (lower (join '' '' ctx)) = []
     \<and> set (split (strip_punctuation (lower (join '' '' ctx)))) = (\<Union>c \<in> set ctx. set (split (strip_punctuation (lower c))))"
proof (induction ctx)
  case Nil
  then show ?case by (simp add: lower_def strip_punctuation_def split_def)
next
  case (Cons c ctx)
  show ?case
  proof (cases "ctx = []")
    case True
    then show ?thesis using Cons.prems by simp
  next
    case False
    have j: "join '' '' (c # ctx) = c @ CHR '' '' # join '' '' ctx" using False by (rule join_Cons)
    have lj: "lower (join '' '' (c # ctx)) = lower c @ CHR '' '' # lower (join '' '' ctx)"
      unfolding j by (simp add: lower_def lower_space)
    have a: "\<forall>i. match_time (drop i (lower c)) = None"
      using Cons.prems findall_time_Nil_iff by simp
    have b: "\<forall>i. match_time (drop i (lower (join '' '' ctx))) = None"
      using Cons.IH Cons.prems findall_time_Nil_iff by simp
    have "\<forall>i. match_time (drop i (lower (join '' '' (c # ctx)))) = None"
      unfolding lj using no_time_joined [OF a b] by blast
    then have "findall_time (lower (join '' '' (c # ctx))) = []"
      using findall_time_Nil_iff by blast
    moreover have "set (split (strip_punctuation (lower (join '' '' (c # ctx))))) = (\<Union>c \<in> set (c # ctx). set (split (strip_punctuation (lower c))))"
      unfolding j plain_words_joined using Cons.IH Cons.prems by simp
    ultimately show ?thesis by blast
  qed
qed

lemma tokenize_joined_no_time:
  assumes "\<forall>c \<in> set ctx. findall_time (lower c) = []"
  shows "tokenize (join '' '' ctx) = (\<Union>c \<in> set ctx. tokenize c)"
proof -
  have "tokenize (join '' '' ctx) = set (split (strip_punctuation (lower (join '' '' ctx))))"
    using joined_no_time [OF assms] tokenize_no_time by blast
  also have "\<dots> = (\<Union>c \<in> set ctx. set (split (strip_punctuation (lower c))))" using joined_no_time [OF assms] by blast
  also have "\<dots> = (\<Union>c \<in> set ctx. tokenize c)" using assms tokenize_no_time by simp
  finally show ?thesis .
qed

text \<open>
  Claim C5, as stated, fails twice. A non-empty text without any token (punctuation
  only) grounds itself with score 0, since the empty union returns 0. And an answer
  that shares no token with either of two retrieved contexts can score above 0:
  in the joined contexts the removal of \<open>9:00\<close> also cuts \<open>19:00\<close>, which leaves the
  plain token \<open>1\<close> that neither context has alone.
\<close>

theorem self_grounding_counterexample:
  "''...'' \<noteq> [] \<and> check_grounding ''Is it open?'' [''...''] ''...'' = Inr 0
   \<and> check_grounding ''Is it open?'' [''...''] ''...'' \<noteq> Inr 1
   \<and> tokenize ''Opens 9:00'' \<inter> tokenize ''1'' = {}
   \<and> tokenize ''Closes 19:00'' \<inter> tokenize ''1'' = {}
   \<and> tokenize (join '' '' [''Opens 9:00'', ''Closes 19:00''])
        = {''opens'', ''closes'', ''time_9:00'', ''time_19:00'', ''1''}
   \<and> check_grounding ''Is it open?'' [''Opens 9:00'', ''Closes 19:00''] ''1''
        = Inr (3602879701896397 / 18014398509481984)
   \<and> check_grounding ''Is it open?'' [''Opens 9:00'', ''Closes 19:00''] ''1'' \<noteq> Inr 0"
  by code_simp

text \<open>
  Claim C5, amended. A text with at least one token grounds itself with score 1
  (a text with no token scores 0), and an answer sharing no token with any
  retrieved context scores 0 when there is a single retrieved context or no
  retrieved context contains a time pattern.
\<close>

theorem self_grounding_amended:
  "(tokenize t \<noteq> {} \<longrightarrow> check_grounding q [t] t = Inr 1)
   \<and> (tokenize t = {} \<longrightarrow> check_grounding q [t] t = Inr 0)
   \<and> (((\<exists>c. ctx = [c]) \<or> (\<forall>c \<in> set ctx. findall_time (lower c) = []))
        \<and> (\<forall>c \<in> set ctx. tokenize c \<inter> tokenize a = {}) \<longrightarrow>
       check_grounding q ctx a = Inr 0)"
proof (intro conjI impI)
  assume ne: "tokenize t \<noteq> {}"
  then have "t \<noteq> []" using tokenize_Nil by auto
  moreover have "card (tokenize t) \<noteq> 0" using ne finite_tokenize by (simp add: card_eq_0_iff)
  ultimately show "check_grounding q [t] t = Inr 1"
    using ne by (simp add: check_grounding_cases round4_1 to_double_1)
next
  assume "tokenize t = {}"
  then show "check_grounding q [t] t = Inr 0"
    by (simp add: check_grounding_cases)
next
  assume h: "((\<exists>c. ctx = [c]) \<or> (\<forall>c \<in> set ctx. findall_time (lower c) = []))
        \<and> (\<forall>c \<in> set ctx. tokenize c \<inter> tokenize a = {})"
  have "tokenize (join '' '' ctx) = (\<Union>c \<in> set ctx. tokenize c)"
  proof (cases "\<exists>c. ctx = [c]")
    case True
    then show ?thesis by auto
  next
    case False
    then show ?thesis using h tokenize_joined_no_time by blast
  qed
  then have "tokenize (join '' '' ctx) \<inter> tokenize a = {}" using h by auto
  then show "check_grounding q ctx a = Inr 0"
    by (simp add: check_grounding_cases round4_0 to_double_0)
qed

theorem self_grounding_amended_witness:
  "tokenize ''Magic Kingdom opens at 9:00.'' = {''magic'', ''kingdom'', ''opens'', ''at'', ''time_9:00''}
   \<and> check_grounding ''Is it open?'' [''Magic Kingdom opens at 9:00.'']
        ''Magic Kingdom opens at 9:00.'' = Inr 1
   \<and> tokenize ''Magic Kingdom opens at 9:00.'' \<inter> tokenize ''Bring an umbrella!'' = {}
   \<and> check_grounding ''Is it open?'' [''Magic Kingdom opens at 9:00.''] ''Bring an umbrella!'' = Inr 0
   \<and> findall_time (lower ''Magic Kingdom opens early.'') = []
   \<and> findall_time (lower ''EPCOT closes late.'') = []
   \<and> tokenize ''Magic Kingdom opens early.'' \<inter> tokenize ''Bring an umbrella!'' = {}
   \<and> tokenize ''EPCOT closes late.'' \<inter> tokenize ''Bring an umbrella!'' = {}
   \<and> check_grounding ''Is it open?'' [''Magic Kingdom opens early.'', ''EPCOT closes late.'']
        ''Bring an umbrella!'' = Inr 0"
proof -
  have t: "tokenize ''Magic Kingdom opens at 9:00.''
      = {''magic'', ''kingdom'', ''opens'', ''at'', ''time_9:00''}" by code_simp
  then have ne: "tokenize ''Magic Kingdom opens at 9:00.'' \<noteq> {}" by simp
  have one: "check_grounding ''Is it open?'' [''Magic Kingdom opens at 9:00.'']
        ''Magic Kingdom opens at 9:00.'' = Inr 1"
    using self_grounding_amended [of "''Magic Kingdom opens at 9:00.''" "''Is it open?''"] ne
    by blast
  have d0: "tokenize ''Magic Kingdom opens at 9:00.'' \<inter> tokenize ''Bring an umbrella!'' = {}"
    by code_simp
  have single: "check_grounding ''Is it open?'' [''Magic Kingdom opens at 9:00.'']
        ''Bring an umbrella!'' = Inr 0"
    using self_grounding_amended [where q = "''Is it open?''"
        and ctx = "[''Magic Kingdom opens at 9:00.'']" and a = "''Bring an umbrella!''"] d0
    by simp
  have n1: "findall_time (lower ''Magic Kingdom opens early.'') = []" by code_simp
  have n2: "findall_time (lower ''EPCOT closes late.'') = []" by code_simp
  have d1: "tokenize ''Magic Kingdom opens early.'' \<inter> tokenize ''Bring an umbrella!'' = {}"
    by code_simp
  have d2: "tokenize ''EPCOT closes late.'' \<inter> tokenize ''Bring an umbrella!'' = {}"
    by code_simp
  have zero: "check_grounding ''Is it open?'' [''Magic Kingdom opens early.'', ''EPCOT closes late.'']
        ''Bring an umbrella!'' = Inr 0"
    using self_grounding_amended [where q = "''Is it open?''"
        and ctx = "[''Magic Kingdom opens early.'', ''EPCOT closes late.'']"
        and a = "''Bring an umbrella!''"] n1 n2 d1 d2
    by simp
  from t one d0 single n1 n2 d1 d2 zero show ?thesis by blast
qed

text \<open>Every match of the time pattern yields its normalized typed token.\<close>

lemma time_loop_keeps: "x \<in> fst st \<Longrightarrow> x \<in> fst (time_loop ms st)"
  by (induction ms st rule: time_loop.induct) (simp_all add: Let_def)

lemma time_loop_tokens:
  "m \<in> set ms \<Longrightarrow> ''time_'' @ replace ''h'' '':'' m \<in> fst (time_loop ms st)"
proof (induction ms st rule: time_loop.induct)
  case (1 tokens lower_text)
  then show ?case by simp
next
  case (2 time_str rest tokens lower_text)
  show ?case
  proof (cases "m = time_str")
    case True
    then show ?thesis using time_loop_keeps by (simp add: Let_def)
  next
    case False
    then show ?thesis using 2 by (simp add: Let_def)
  qed
qed

lemma tokenize_time_tokens:
  "m \<in> set (findall_time (lower text)) \<Longrightarrow> ''time_'' @ replace ''h'' '':'' m \<in> tokenize text"
proof -
  assume m: "m \<in> set (findall_time (lower text))"
  obtain tokens residual where
    tl: "time_loop (findall_time (lower text)) ({}, lower text) = (tokens, residual)"
    by (cases "time_loop (findall_time (lower text)) ({}, lower text)")
  have "''time_'' @ replace ''h'' '':'' m \<in> fst (time_loop (findall_time (lower text)) ({}, lower text))"
    using m by (rule time_loop_tokens)
  then show ?thesis by (simp add: tokenize_def Let_def tl)
qed

text \<open>
  Claim C4. On the example of the specification both times become normalized
  typed tokens and leave no plain token. On \<open>Open 9:00 to 19:00\<close> the matches are
  \<open>9:00\<close> and \<open>19:00\<close>; removing \<open>9:00\<close> with \<open>str.replace\<close> also removes it inside
  \<open>19:00\<close>, whose leading digit stays in the residual text and becomes the plain
  token \<open>1\<close>.
\<close>

theorem tokenize_time_residue:
  "tokenize ''open 9h00 to 22:00'' = {''time_9:00'', ''time_22:00'', ''open'', ''to''}
   \<and> findall_time (lower ''Open 9:00 to 19:00'') = [''9:00'', ''19:00'']
   \<and> tokenize ''Open 9:00 to 19:00'' = {''time_9:00'', ''time_19:00'', ''open'', ''to'', ''1''}"
  by code_simp

section \<open>Validator: verification\<close>

text \<open>Trimming changes neither the words of a text nor its count of a non-whitespace
  character.\<close>

lemma split_from_spaces:
  "list_all is_space ws \<Longrightarrow> split_from cur ws = (if cur = [] then [] else [cur])"
  by (induction ws arbitrary: cur) auto

lemma split_from_leading:
  "list_all is_space ws \<Longrightarrow> split_from [] (ws @ r) = split_from [] r"
  by (induction ws) auto

lemma split_from_trailing:
  "list_all is_space ws \<Longrightarrow> split_from cur (r @ ws) = split_from cur r"
  by (induction cur r rule: split_from.induct) (auto simp: split_from_spaces)

lemma strip_decomp:
  "\<exists>l r. s = l @ strip s @ r \<and> list_all is_space l \<and> list_all is_space r"
proof -
  let ?x = "dropWhile is_space s"
  have 1: "s = takeWhile is_space s @ ?x" by simp
  have "rev (takeWhile is_space (rev ?x) @ dropWhile is_space (rev ?x)) = ?x"
    by (simp only: takeWhile_dropWhile_id rev_rev_ident)
  then have 2: "strip s @ rev (takeWhile is_space (rev ?x)) = ?x"
    by (simp only: rev_append strip_def)
  have a: "list_all is_space (takeWhile is_space s)"
    by (simp add: list_all_iff) (meson set_takeWhileD)
  have b: "list_all is_space (rev (takeWhile is_space (rev ?x)))"
    by (simp add: list_all_iff) (meson set_takeWhileD)
  from 1 2 have "s = takeWhile is_space s @ strip s @ rev (takeWhile is_space (rev ?x))"
    by (simp only:)
  with a b show ?thesis by blast
qed

lemma split_strip: "split (strip s) = split s"
proof -
  obtain l r where s: "s = l @ strip s @ r" and l: "list_all is_space l" and r: "list_all is_space r"
    using strip_decomp by blast
  have "split s = split_from [] (l @ strip s @ r)" using s by (simp add: split_def)
  also have "\<dots> = split_from [] (strip s @ r)" by (rule split_from_leading [OF l])
  also have "\<dots> = split_from [] (strip s)" by (rule split_from_trailing [OF r])
  finally show ?thesis by (simp add: split_def)
qed

lemma count_list_append: "count_list (xs @ ys) c = count_list xs c + count_list ys c"
  by (induction xs) auto

lemma count_list_spaces: "list_all is_space ws \<Longrightarrow> \<not> is_space c \<Longrightarrow> count_list ws c = 0"
  by (induction ws) auto

lemma count_strip: "\<not> is_space c \<Longrightarrow> count_list (strip s) c = count_list s c"
proof -
  assume c: "\<not> is_space c"
  obtain l r where s: "s = l @ strip s @ r" and l: "list_all is_space l" and r: "list_all is_space r"
    using strip_decomp by blast
  have "count_list s c = count_list (l @ strip s @ r) c" using s by simp
  then show ?thesis
    by (simp add: count_list_append count_list_spaces [OF l c] count_list_spaces [OF r c])
qed

lemma period_not_space: "\<not> is_space CHR ''.''"
  by (simp add: is_space_def)

lemma structure_errors_strip:
  "structure_errors (strip s) = [] \<longleftrightarrow>
     count_list s CHR ''.'' \<le> 1 \<and> CHR 0x0A \<notin> set (strip s) \<and> length (split s) \<le> 40"
  by (auto simp: structure_errors_def split_strip count_strip [OF period_not_space])

lemma missing_fields_Nil:
  "missing_fields chunk = [] \<longleftrightarrow> list_all (\<lambda>f. chunk f \<noteq> None) REQUIRED_FIELDS"
  by (simp add: missing_fields_def REQUIRED_FIELDS_def)

lemma atomicity_errors_Nil:
  "atomicity_errors chunk = [] \<longleftrightarrow>
     nonempty_str (chunk ''entity'') \<and> nonempty_str (chunk ''attribute'')
     \<and> nonempty_str (chunk ''value'') \<and> nonempty_str (chunk ''text'')"
  by (simp add: atomicity_errors_def)

text \<open>
  Claim C6, as stated, fails twice. A fact without the \<open>text\<close> field makes
  \<open>chunk["text"]\<close> raise \<open>KeyError\<close>, so validation does throw. And the newline test
  reads the stripped text, so a fact whose text ends in a newline has no violation.
\<close>

theorem validate_chunk_counterexample:
  "validate_chunk
     [''entity'' \<mapsto> JStr ''Magic Kingdom'', ''attribute'' \<mapsto> JStr ''operating_hours'',
      ''value'' \<mapsto> JStr ''9:00 AM - 10:00 PM'',
      ''source_document'' \<mapsto> JStr ''Orlando_Park_Hours_Dez2025.pdf'',
      ''year_or_season'' \<mapsto> JStr ''December 2025''] 1
     = Inl (KeyError ''text'')
   \<and> CHR 0x0A \<in> set (''Magic Kingdom opens at 9 AM.'' @ [CHR 0x0A])
   \<and> validate_chunk
     [''entity'' \<mapsto> JStr ''Magic Kingdom'', ''attribute'' \<mapsto> JStr ''operating_hours'',
      ''value'' \<mapsto> JStr ''9 AM'',
      ''source_document'' \<mapsto> JStr ''Orlando_Park_Hours_Dez2025.pdf'',
      ''year_or_season'' \<mapsto> JStr ''December 2025'',
      ''text'' \<mapsto> JStr (''Magic Kingdom opens at 9 AM.'' @ [CHR 0x0A])] 1
     = Inr []"
  by code_simp

text \<open>
  Claim C6, amended. For every fact whose \<open>text\<close> field is a string, validation
  returns a list of violations, each tagged with the fact's index. The list is
  non-empty when the text has two or more periods, or more than 40 words, or a
  newline left after trimming, or when a required field is missing. It is empty
  exactly when all required fields are present, \<open>entity\<close>, \<open>attribute\<close>, \<open>value\<close>
  and \<open>text\<close> are strings that are non-empty after trimming, and the text has at
  most one period, no newline after trimming and at most 40 words.
\<close>

theorem validate_chunk_contract:
  assumes "chunk ''text'' = Some (JStr s)"
  shows "\<exists>errs. validate_chunk chunk idx = Inr errs
     \<and> (\<forall>e \<in> set errs. prefix (''[Chunk '' @ str_int idx @ ''] '') e)
     \<and> (2 \<le> count_list s CHR ''.'' \<longrightarrow> errs \<noteq> [])
     \<and> (40 < length (split s) \<longrightarrow> errs \<noteq> [])
     \<and> (CHR 0x0A \<in> set (strip s) \<longrightarrow> errs \<noteq> [])
     \<and> ((\<exists>f \<in> set REQUIRED_FIELDS. chunk f = None) \<longrightarrow> errs \<noteq> [])
     \<and> (errs = [] \<longleftrightarrow>
          (\<forall>f \<in> set REQUIRED_FIELDS. chunk f \<noteq> None)
          \<and> nonempty_str (chunk ''entity'') \<and> nonempty_str (chunk ''attribute'')
          \<and> nonempty_str (chunk ''value'') \<and> strip s \<noteq> []
          \<and> count_list s CHR ''.'' \<le> 1 \<and> CHR 0x0A \<notin> set (strip s)
          \<and> length (split s) \<le> 40)"
proof -
  define tag where "tag = (\<lambda>err. ''[Chunk '' @ str_int idx @ ''] '' @ err)"
  define errors where
    "errors = (missing_fields chunk @ atomicity_errors chunk) @ structure_errors (strip s)"
  have res: "validate_chunk chunk idx = Inr (map tag errors)"
    using assms by (simp add: validate_chunk_def Let_def tag_def errors_def)
  have tagged: "\<forall>e \<in> set (map tag errors). prefix (''[Chunk '' @ str_int idx @ ''] '') e"
    by (auto simp: tag_def)
  have tx: "nonempty_str (chunk ''text'') \<longleftrightarrow> strip s \<noteq> []"
    using assms by (simp add: nonempty_str_def)
  have empty: "map tag errors = [] \<longleftrightarrow>
          (\<forall>f \<in> set REQUIRED_FIELDS. chunk f \<noteq> None)
          \<and> nonempty_str (chunk ''entity'') \<and> nonempty_str (chunk ''attribute'')
          \<and> nonempty_str (chunk ''value'') \<and> strip s \<noteq> []
          \<and> count_list s CHR ''.'' \<le> 1 \<and> CHR 0x0A \<notin> set (strip s)
          \<and> length (split s) \<le> 40"
    unfolding errors_def
    by (simp only: map_is_Nil_conv append_is_Nil_conv missing_fields_Nil atomicity_errors_Nil
        structure_errors_strip tx list_all_iff conj_assoc)
  have p: "2 \<le> count_list s CHR ''.'' \<longrightarrow> map tag errors \<noteq> []"
    unfolding empty by simp
  have w: "40 < length (split s) \<longrightarrow> map tag errors \<noteq> []"
    unfolding empty by simp
  have n: "CHR 0x0A \<in> set (strip s) \<longrightarrow> map tag errors \<noteq> []"
    unfolding empty by simp
  have m: "(\<exists>f \<in> set REQUIRED_FIELDS. chunk f = None) \<longrightarrow> map tag errors \<noteq> []"
    unfolding empty by blast
  from res tagged p w n m empty show ?thesis by blast
qed

theorem validate_chunk_contract_witness:
  "validate_chunk
     [''entity'' \<mapsto> JStr ''Magic Kingdom'', ''attribute'' \<mapsto> JStr ''operating_hours'',
      ''value'' \<mapsto> JStr ''9:00 AM - 10:00 PM'',
      ''source_document'' \<mapsto> JStr ''Orlando_Park_Hours_Dez2025.pdf'',
      ''year_or_season'' \<mapsto> JStr ''December 2025'',
      ''text'' \<mapsto> JStr ''Magic Kingdom operating hours during December 2025: 9:00 AM - 10:00 PM.''] 7
     = Inr []
   \<and> validate_chunk
     [''attribute'' \<mapsto> JStr ''operating_hours'', ''value'' \<mapsto> JStr ''9:00 AM - 10:00 PM'',
      ''source_document'' \<mapsto> JStr ''Orlando_Park_Hours_Dez2025.pdf'',
      ''year_or_season'' \<mapsto> JStr ''December 2025'',
      ''text'' \<mapsto> JStr ''It opens at 9. It closes at 10.''] 7
     = Inr [''[Chunk 7] Missing field: entity'', ''[Chunk 7] Entity must be a non-empty string'',
            ''[Chunk 7] Text should be a single factual sentence (not a paragraph or list)'']
   \<and> (\<exists>errs. validate_chunk
     [''attribute'' \<mapsto> JStr ''operating_hours'', ''value'' \<mapsto> JStr ''9:00 AM - 10:00 PM'',
      ''source_document'' \<mapsto> JStr ''Orlando_Park_Hours_Dez2025.pdf'',
      ''year_or_season'' \<mapsto> JStr ''December 2025'',
      ''text'' \<mapsto> JStr ''It opens at 9. It closes at 10.''] 7 = Inr errs \<and> errs \<noteq> [])"
proof -
  let ?bad = "[''attribute'' \<mapsto> JStr ''operating_hours'', ''value'' \<mapsto> JStr ''9:00 AM - 10:00 PM'',
      ''source_document'' \<mapsto> JStr ''Orlando_Park_Hours_Dez2025.pdf'',
      ''year_or_season'' \<mapsto> JStr ''December 2025'',
      ''text'' \<mapsto> JStr ''It opens at 9. It closes at 10.'']"
  have h: "?bad ''text'' = Some (JStr ''It opens at 9. It closes at 10.'')" by simp
  have periods: "2 \<le> count_list ''It opens at 9. It closes at 10.'' CHR ''.''" by simp
  have c: "\<exists>errs. validate_chunk ?bad 7 = Inr errs \<and> errs \<noteq> []"
    using validate_chunk_contract [of ?bad "''It opens at 9. It closes at 10.''" 7] h periods
    by blast
  have a: "validate_chunk
     [''entity'' \<mapsto> JStr ''Magic Kingdom'', ''attribute'' \<mapsto> JStr ''operating_hours'',
      ''value'' \<mapsto> JStr ''9:00 AM - 10:00 PM'',
      ''source_document'' \<mapsto> JStr ''Orlando_Park_Hours_Dez2025.pdf'',
      ''year_or_season'' \<mapsto> JStr ''December 2025'',
      ''text'' \<mapsto> JStr ''Magic Kingdom operating hours during December 2025: 9:00 AM - 10:00 PM.''] 7
     = Inr []" by code_simp
  have b: "validate_chunk ?bad 7
     = Inr [''[Chunk 7] Missing field: entity'', ''[Chunk 7] Entity must be a non-empty string'',
            ''[Chunk 7] Text should be a single factual sentence (not a paragraph or list)'']"
    by code_simp
  from a b c show ?thesis by blast
qed

section \<open>Atomic fact extractor: verification\<close>

lemma search_rule_skip:
  "(\<And>i. i < length pre \<Longrightarrow>
       \<not> (\<exists>v. prefix (label @ [v]) (drop i (pre @ rest)) \<and> v \<noteq> CHR '',''))
   \<Longrightarrow> search_rule label (pre @ rest) = search_rule label rest"
proof (induction pre)
  case Nil
  then show ?case by simp
next
  case (Cons c pre)
  have no0: "\<not> (\<exists>v. prefix (label @ [v]) (c # pre @ rest) \<and> v \<noteq> CHR '','')"
    using Cons.prems [of 0] by simp
  have "\<not> (prefix label (c # pre @ rest) \<and> drop (length label) (c # pre @ rest) \<noteq> []
          \<and> hd (drop (length label) (c # pre @ rest)) \<noteq> CHR '','')"
  proof
    assume a: "prefix label (c # pre @ rest) \<and> drop (length label) (c # pre @ rest) \<noteq> []
          \<and> hd (drop (length label) (c # pre @ rest)) \<noteq> CHR '',''"
    then obtain r where r: "c # pre @ rest = label @ r" by (auto simp: prefix_def)
    with a have "r \<noteq> []" "hd r \<noteq> CHR '',''" by auto
    then obtain v r' where "r = v # r'" "v \<noteq> CHR '',''" by (cases r) auto
    with r have "prefix (label @ [v]) (c # pre @ rest)" by (simp add: prefix_def)
    with \<open>v \<noteq> CHR '',''\<close> no0 show False by blast
  qed
  then have "search_rule label ((c # pre) @ rest) = search_rule label (pre @ rest)"
    by (auto simp: Let_def)
  also have "\<dots> = search_rule label rest"
  proof (rule Cons.IH)
    fix i assume "i < length pre"
    then show "\<not> (\<exists>v. prefix (label @ [v]) (drop i (pre @ rest)) \<and> v \<noteq> CHR '','')"
      using Cons.prems [of "Suc i"] by simp
  qed
  finally show ?case .
qed

lemma search_rule_line:
  "search_rule ''Magic Kingdom: '' (''Magic Kingdom: 9:00 AM - 10:00 PM, '' @ post)
     = Some ''9:00 AM - 10:00 PM''"
  by (simp add: Let_def)

lemma strip_hours: "strip ''9:00 AM - 10:00 PM'' = ''9:00 AM - 10:00 PM''"
  by code_simp

text \<open>
  Claim C7, as stated, fails: \<open>re.search\<close> takes the leftmost match of a rule, so a
  document that lists \<open>Magic Kingdom: \<close> twice yields the hours of the first
  listing only, although its normalized text contains the line of the claim.
\<close>

theorem park_hours_counterexample:
  "contains ''Orlando_Park_Hours_Dez2025'' ''Orlando_Park_Hours_Dez2025.pdf''
   \<and> contains ''Magic Kingdom: 9:00 AM - 10:00 PM, ''
        (collapse_ws (strip
          ''Dec 24 Magic Kingdom: 8:00 AM - 11:00 PM, Dec 25 Magic Kingdom: 9:00 AM - 10:00 PM, closed Dec 26''))
   \<and> extract_atomic_facts
        ''Dec 24 Magic Kingdom: 8:00 AM - 11:00 PM, Dec 25 Magic Kingdom: 9:00 AM - 10:00 PM, closed Dec 26''
        ''Orlando_Park_Hours_Dez2025.pdf''
      = [\<lparr>entity = ''Magic Kingdom'', attribute = ''operating_hours'',
           fact_value = ''8:00 AM - 11:00 PM'',
           source_document = ''Orlando_Park_Hours_Dez2025.pdf'',
           year_or_season = ''December 2025'',
           fact_text = ''Magic Kingdom operating hours during December 2025: 8:00 AM - 11:00 PM.''\<rparr>]"
  by code_simp

text \<open>
  Claim C7, amended. For a source recognized as the hours document whose
  normalized text contains the line \<open>Magic Kingdom: 9:00 AM - 10:00 PM, \<close>, with no
  earlier position where \<open>Magic Kingdom: \<close> is followed by a character other than a
  comma, the extractor emits the fact with entity \<open>Magic Kingdom\<close>, attribute
  \<open>operating_hours\<close> and value \<open>9:00 AM - 10:00 PM\<close>, as its first fact.
\<close>

theorem park_hours_extraction:
  assumes "contains ''Orlando_Park_Hours_Dez2025'' source_doc"
    and "collapse_ws (strip raw) = pre @ ''Magic Kingdom: 9:00 AM - 10:00 PM, '' @ post"
    and "\<forall>i < length pre.
           \<not> (\<exists>v. prefix (''Magic Kingdom: '' @ [v]) (drop i (collapse_ws (strip raw)))
                \<and> v \<noteq> CHR '','')"
  shows "\<lparr>entity = ''Magic Kingdom'', attribute = ''operating_hours'',
          fact_value = ''9:00 AM - 10:00 PM'', source_document = source_doc,
          year_or_season = ''December 2025'',
          fact_text = ''Magic Kingdom operating hours during December 2025: 9:00 AM - 10:00 PM.''\<rparr>
           \<in> set (extract_atomic_facts raw source_doc)
       \<and> hd (extract_atomic_facts raw source_doc) =
           \<lparr>entity = ''Magic Kingdom'', attribute = ''operating_hours'',
            fact_value = ''9:00 AM - 10:00 PM'', source_document = source_doc,
            year_or_season = ''December 2025'',
            fact_text = ''Magic Kingdom operating hours during December 2025: 9:00 AM - 10:00 PM.''\<rparr>"
proof -
  let ?line = "''Magic Kingdom: 9:00 AM - 10:00 PM, ''"
  have "search_rule ''Magic Kingdom: '' (pre @ ?line @ post)
      = search_rule ''Magic Kingdom: '' (?line @ post)"
    using assms(3) unfolding assms(2) by (intro search_rule_skip) blast
  then have found: "search_rule ''Magic Kingdom: '' (collapse_ws (strip raw))
      = Some ''9:00 AM - 10:00 PM''"
    unfolding assms(2) by (simp only: search_rule_line)
  obtain others where
    "park_loop park_rules (collapse_ws (strip raw)) source_doc ''December 2025'' =
       \<lparr>entity = ''Magic Kingdom'', attribute = ''operating_hours'',
        fact_value = ''9:00 AM - 10:00 PM'', source_document = source_doc,
        year_or_season = ''December 2025'',
        fact_text = ''Magic Kingdom operating hours during December 2025: 9:00 AM - 10:00 PM.''\<rparr>
       # others"
    unfolding park_rules_def by (simp add: found strip_hours Let_def)
  then show ?thesis
    using assms(1) by (simp add: extract_atomic_facts_def Let_def)
qed

theorem park_hours_extraction_witness:
  "contains ''Orlando_Park_Hours_Dez2025'' ''data/Orlando_Park_Hours_Dez2025.pdf''
   \<and> collapse_ws (strip (''Hours:   Magic Kingdom: 9:00 AM - 10:00 PM, '' @ [CHR 0x0A]
         @ ''EPCOT: 9:00 AM - 9:00 PM, Magic Kingdom: 8:00 AM - 11:00 PM, ''))
      = ''Hours: '' @ ''Magic Kingdom: 9:00 AM - 10:00 PM, ''
         @ ''EPCOT: 9:00 AM - 9:00 PM, Magic Kingdom: 8:00 AM - 11:00 PM,''
   \<and> hd (extract_atomic_facts (''Hours:   Magic Kingdom: 9:00 AM - 10:00 PM, '' @ [CHR 0x0A]
         @ ''EPCOT: 9:00 AM - 9:00 PM, Magic Kingdom: 8:00 AM - 11:00 PM, '')
         ''data/Orlando_Park_Hours_Dez2025.pdf'')
      = \<lparr>entity = ''Magic Kingdom'', attribute = ''operating_hours'',
            fact_value = ''9:00 AM - 10:00 PM'',
            source_document = ''data/Orlando_Park_Hours_Dez2025.pdf'',
            year_or_season = ''December 2025'',
            fact_text = ''Magic Kingdom operating hours during December 2025: 9:00 AM - 10:00 PM.''\<rparr>
   \<and> map entity (extract_atomic_facts (''Hours:   Magic Kingdom: 9:00 AM - 10:00 PM, '' @ [CHR 0x0A]
         @ ''EPCOT: 9:00 AM - 9:00 PM, Magic Kingdom: 8:00 AM - 11:00 PM, '')
         ''data/Orlando_Park_Hours_Dez2025.pdf'')
      = [''Magic Kingdom'', ''EPCOT'']"
proof -
  let ?raw = "''Hours:   Magic Kingdom: 9:00 AM - 10:00 PM, '' @ [CHR 0x0A]
         @ ''EPCOT: 9:00 AM - 9:00 PM, Magic Kingdom: 8:00 AM - 11:00 PM, ''"
  have h1: "contains ''Orlando_Park_Hours_Dez2025'' ''data/Orlando_Park_Hours_Dez2025.pdf''"
    by code_simp
  have h2: "collapse_ws (strip ?raw)
      = ''Hours: '' @ ''Magic Kingdom: 9:00 AM - 10:00 PM, ''
         @ ''EPCOT: 9:00 AM - 9:00 PM, Magic Kingdom: 8:00 AM - 11:00 PM,''"
    by code_simp
  have h3: "\<forall>i < length ''Hours: ''.
           \<not> (\<exists>v. prefix (''Magic Kingdom: '' @ [v]) (drop i (collapse_ws (strip ?raw)))
                \<and> v \<noteq> CHR '','')"
    unfolding h2 by (simp add: All_less_Suc)
  have e: "map entity (extract_atomic_facts ?raw ''data/Orlando_Park_Hours_Dez2025.pdf'')
      = [''Magic Kingdom'', ''EPCOT'']" by code_simp
  from park_hours_extraction [OF h1 h2 h3] h1 h2 e show ?thesis by blast
qed

lemma contains_iff: "contains sub s \<longleftrightarrow> (\<exists>a b. s = a @ sub @ b)"
proof (induction s)
  case Nil
  then show ?case by auto
next
  case (Cons c cs)
  show ?case
  proof
    assume "contains sub (c # cs)"
    then consider "prefix sub (c # cs)" | "contains sub cs" by auto
    then show "\<exists>a b. c # cs = a @ sub @ b"
    proof cases
      case 1
      then obtain b where "c # cs = sub @ b" by (auto simp: prefix_def)
      then have "c # cs = [] @ sub @ b" by simp
      then show ?thesis by blast
    next
      case 2
      then obtain a b where "cs = a @ sub @ b" using Cons.IH by blast
      then have "c # cs = (c # a) @ sub @ b" by simp
      then show ?thesis by blast
    qed
  next
    assume "\<exists>a b. c # cs = a @ sub @ b"
    then obtain a b where ab: "c # cs = a @ sub @ b" by blast
    show "contains sub (c # cs)"
    proof (cases a)
      case Nil
      then have "prefix sub (c # cs)" using ab by (simp add: prefix_def)
      then show ?thesis by simp
    next
      case (Cons x a')
      then have "cs = a' @ sub @ b" using ab by simp
      then have "contains sub cs" using Cons.IH by blast
      then show ?thesis by simp
    qed
  qed
qed

lemma generic_loop_texts:
  "map fact_text (generic_loop ss src) =
     filter (\<lambda>s. 20 < length s \<and> length s < 120
                 \<and> (\<exists>kw \<in> set KEYWORDS. contains kw (lower s))) ss"
  by (induction ss) (auto simp: list_ex_iff)

lemma generic_loop_fields:
  "f \<in> set (generic_loop ss src) \<Longrightarrow>
     entity f = ''unknown'' \<and> attribute f = ''generic_factual'' \<and> fact_value f = fact_text f
     \<and> source_document f = src \<and> year_or_season f = ''unknown''"
  by (induction ss) (auto split: if_splits)

text \<open>
  Claim C8, as stated, fails at the lower end of the length range: the test is
  \<open>20 < len(sent)\<close>, so a sentence of exactly 20 characters with a keyword is not
  emitted.
\<close>

theorem generic_extraction_counterexample:
  "\<not> contains ''Orlando_Park_Hours_Dez2025'' ''guide.pdf''
   \<and> sentences (collapse_ws (strip ''The park opens at 9.'')) = [''The park opens at 9.'']
   \<and> length ''The park opens at 9.'' = 20
   \<and> contains ''open'' ''The park opens at 9.''
   \<and> extract_atomic_facts ''The park opens at 9.'' ''guide.pdf'' = []"
  by code_simp

text \<open>
  Claim C8, amended. For a source not recognized as the hours document, the
  texts of the emitted facts are, in order, exactly the sentences whose length is
  strictly between 20 and 120 and whose lower-cased text contains a keyword; each
  such fact has entity \<open>unknown\<close>.
\<close>

theorem generic_extraction_filter:
  assumes "\<not> contains ''Orlando_Park_Hours_Dez2025'' source_doc"
  shows "map fact_text (extract_atomic_facts raw source_doc) =
           filter (\<lambda>s. 20 < length s \<and> length s < 120
                       \<and> (\<exists>kw \<in> set KEYWORDS. contains kw (lower s)))
             (sentences (collapse_ws (strip raw)))
       \<and> (\<forall>f \<in> set (extract_atomic_facts raw source_doc).
             entity f = ''unknown'' \<and> attribute f = ''generic_factual''
           \<and> fact_value f = fact_text f \<and> source_document f = source_doc
           \<and> year_or_season f = ''unknown'')"
  using assms generic_loop_fields
  by (auto simp: extract_atomic_facts_def Let_def generic_loop_texts)

theorem generic_extraction_filter_witness:
  "\<not> contains ''Orlando_Park_Hours_Dez2025'' ''guide.pdf''
   \<and> sentences (collapse_ws (strip
        ''The park opens at 9. The park Opens at 10. Hi there!  What is the weather in Orlando now?''))
      = [''The park opens at 9.'', ''The park Opens at 10.'', ''Hi there!'',
         ''What is the weather in Orlando now?'']
   \<and> map fact_text (extract_atomic_facts
        ''The park opens at 9. The park Opens at 10. Hi there!  What is the weather in Orlando now?''
        ''guide.pdf'')
      = [''The park Opens at 10.'']"
proof -
  have h: "\<not> contains ''Orlando_Park_Hours_Dez2025'' ''guide.pdf''" by code_simp
  have s: "sentences (collapse_ws (strip
        ''The park opens at 9. The park Opens at 10. Hi there!  What is the weather in Orlando now?''))
      = [''The park opens at 9.'', ''The park Opens at 10.'', ''Hi there!'',
         ''What is the weather in Orlando now?'']" by code_simp
  have f: "filter (\<lambda>s. 20 < length s \<and> length s < 120
                       \<and> (\<exists>kw \<in> set KEYWORDS. contains kw (lower s)))
      [''The park opens at 9.'', ''The park Opens at 10.'', ''Hi there!'',
         ''What is the weather in Orlando now?''] = [''The park Opens at 10.'']" by code_simp
  have "map fact_text (extract_atomic_facts
        ''The park opens at 9. The park Opens at 10. Hi there!  What is the weather in Orlando now?''
        ''guide.pdf'') = [''The park Opens at 10.'']"
    using generic_extraction_filter [OF h] s f by simp
  with h s show ?thesis by blast
qed

section \<open>Vector index and layer builds: verification\<close>

lemma as_array_rows: "as_array rows = Inr a \<Longrightarrow> a = rows"
  by (auto simp: as_array_def split: list.splits if_splits)

lemma encode_rows: "encode encoder texts = Inr e \<Longrightarrow> e = map encoder texts"
  by (auto simp: encode_def dest: as_array_rows)

lemma index_add_vectors:
  "index_add (IndexFlatL2 d) es = Inr ix \<Longrightarrow> index_vectors ix = es"
  by (auto simp: index_add_def IndexFlatL2_def split: if_splits)

lemma fact_texts_paired:
  "fact_texts facts = Inr ts \<Longrightarrow> list_all2 (paired encoder) facts (map encoder ts)"
proof (induction facts arbitrary: ts)
  case Nil
  then show ?case by simp
next
  case (Cons a facts)
  from Cons.prems obtain t ts' where
    t: "getitem a ''text'' = Inr (JStr t)" and r: "fact_texts facts = Inr ts'" and ts: "ts = t # ts'"
    by (auto split: sum.splits json.splits)
  have "paired encoder a (encoder t)" using t by (auto simp: paired_def)
  then show ?case using Cons.IH [OF r] ts by simp
qed

lemma chunk_records_paired:
  "list_all (\<lambda>(c, e). e = encoder c) pairs \<Longrightarrow>
     list_all2 (paired encoder) (chunk_records file_name i pairs) (map snd pairs)"
proof (induction pairs arbitrary: i)
  case Nil
  then show ?case by simp
next
  case (Cons p pairs)
  obtain c e where p: "p = (c, e)" by (cases p)
  have "getitem (JObj [(''source_file'', file_name), (''chunk_id'', JNum (of_nat i)),
           (''text'', JStr c), (''char_count'', JNum (of_nat (length c)))]) ''text'' = Inr (JStr c)"
    by (simp add: getitem_def)
  then show ?case using Cons p by (auto simp: paired_def)
qed

lemma zip_encoded: "list_all (\<lambda>(c, e). e = encoder c) (zip chunks (map encoder chunks))"
  by (induction chunks) auto

lemma layer_loop_paired:
  "layer_loop encoder docs (cs, es) = Inr (cs', es') \<Longrightarrow> list_all2 (paired encoder) cs es
     \<Longrightarrow> list_all2 (paired encoder) cs' es'"
proof (induction docs arbitrary: cs es)
  case Nil
  then show ?case by simp
next
  case (Cons doc docs)
  from Cons.prems(1) obtain content chunks embeddings where
    c: "getitem doc ''content'' = Inr (JStr content)"
    and s: "simple_token_split content 512 50 = Inr chunks"
    and e: "encode encoder chunks = Inr embeddings"
    by (auto split: sum.splits json.splits)
  have em: "embeddings = map encoder chunks" using e by (rule encode_rows)
  let ?pairs = "zip chunks (map encoder chunks)"
  show ?case
  proof (cases "?pairs = []")
    case True
    then have "layer_loop encoder docs (cs, es) = Inr (cs', es')"
      using Cons.prems(1) c s e em by (simp add: Let_def)
    then show ?thesis using Cons.IH Cons.prems(2) by blast
  next
    case False
    then obtain file_name where
      "layer_loop encoder docs (cs @ chunk_records file_name 0 ?pairs, es @ map snd ?pairs)
         = Inr (cs', es')"
      using Cons.prems(1) c s e em by (auto simp: Let_def split: sum.splits)
    moreover have "list_all2 (paired encoder) (cs @ chunk_records file_name 0 ?pairs)
        (es @ map snd ?pairs)"
      using Cons.prems(2) chunk_records_paired [OF zip_encoded]
      by (intro list_all2_appendI)
    ultimately show ?thesis using Cons.IH by blast
  qed
qed

lemma search_ids:
  assumes "index_search ix q k = Inr hits" and "(i, d) \<in> set hits"
  shows "i = - 1 \<or> (0 \<le> i \<and> i < int (ntotal ix))"
proof -
  let ?scored = "zip (map int [0..<ntotal ix]) (map (l2 q) (index_vectors ix))"
  from assms(1) have hits: "hits = take (nat k) (sort_key snd ?scored)
      @ replicate (nat k - length (take (nat k) (sort_key snd ?scored))) (- 1, FLT_MAX)"
    by (auto simp: index_search_def Let_def split: if_splits)
  from assms(2) consider "(i, d) \<in> set (take (nat k) (sort_key snd ?scored))" | "i = - 1"
    unfolding hits by auto
  then show ?thesis
  proof cases
    case 1
    then have "(i, d) \<in> set ?scored" by (auto dest: in_set_takeD)
    then have "i \<in> set (map int [0..<ntotal ix])" by (rule set_zip_leftD)
    then show ?thesis by auto
  next
    case 2
    then show ?thesis by simp
  qed
qed

lemma aligned_store:
  assumes "list_all2 (paired encoder) md (index_vectors ix)"
  shows "length md = ntotal ix
     \<and> (\<forall>i < length md.
           \<exists>t. getitem (md ! i) ''text'' = Inr (JStr t) \<and> index_vectors ix ! i = encoder t)
     \<and> (\<forall>q k hits. index_search ix q k = Inr hits \<longrightarrow>
           (\<forall>(i, d) \<in> set hits. i = - 1 \<or> (0 \<le> i \<and> i < int (length md))))"
proof -
  have len: "length md = ntotal ix"
    using assms by (simp add: ntotal_def list_all2_lengthD)
  have nth: "\<forall>i < length md.
           \<exists>t. getitem (md ! i) ''text'' = Inr (JStr t) \<and> index_vectors ix ! i = encoder t"
    using assms by (auto simp: list_all2_conv_all_nth paired_def)
  have ids: "\<forall>q k hits. index_search ix q k = Inr hits \<longrightarrow>
           (\<forall>(i, d) \<in> set hits. i = - 1 \<or> (0 \<le> i \<and> i < int (length md)))"
    unfolding len using search_ids by blast
  from len nth ids show ?thesis by blast
qed

text \<open>A build that returns leaves a metadata file and an index file that are aligned.\<close>

lemma returning_build_aligned:
  assumes "rebuild_atomic_core loads encoder atomic_file store = (None, store')
         \<or> embed_and_save_layer encoder docs store = (None, store')"
  shows "\<exists>md ix. metadata_file store' = Some md \<and> index_file store' = Some ix
     \<and> length md = ntotal ix
     \<and> (\<forall>i < length md.
           \<exists>t. getitem (md ! i) ''text'' = Inr (JStr t) \<and> index_vectors ix ! i = encoder t)
     \<and> (\<forall>q k hits. index_search ix q k = Inr hits \<longrightarrow>
           (\<forall>(i, d) \<in> set hits. i = - 1 \<or> (0 \<le> i \<and> i < int (length md))))"
proof -
  have "\<exists>md ix. metadata_file store' = Some md \<and> index_file store' = Some ix
      \<and> list_all2 (paired encoder) md (index_vectors ix)"
    using assms
  proof
    assume "rebuild_atomic_core loads encoder atomic_file store = (None, store')"
    then obtain facts ts es d ix where
      ft: "fact_texts facts = Inr ts" and en: "encode encoder ts = Inr es"
      and ad: "index_add (IndexFlatL2 d) es = Inr ix"
      and st: "store' = store\<lparr>metadata_file := Some facts, embeddings_file := Some es,
                                index_file := Some ix\<rparr>"
      by (auto simp: rebuild_atomic_core_def Let_def split: option.splits sum.splits)
    have "list_all2 (paired encoder) facts (index_vectors ix)"
      using fact_texts_paired [OF ft] encode_rows [OF en] index_add_vectors [OF ad] by simp
    then show ?thesis using st by simp
  next
    assume "embed_and_save_layer encoder docs store = (None, store')"
    then obtain cs es a d ix where
      ll: "layer_loop encoder docs ([], []) = Inr (cs, es)" and ar: "as_array es = Inr a"
      and ad: "index_add (IndexFlatL2 d) a = Inr ix"
      and st: "store' = store\<lparr>metadata_file := Some cs, index_file := Some ix\<rparr>"
      by (auto simp: embed_and_save_layer_def Let_def split: sum.splits prod.splits)
    have "list_all2 (paired encoder) cs es"
      using layer_loop_paired [OF ll] by simp
    then have "list_all2 (paired encoder) cs (index_vectors ix)"
      using as_array_rows [OF ar] index_add_vectors [OF ad] by simp
    then show ?thesis using st by simp
  qed
  then show ?thesis using aligned_store by blast
qed

text \<open>
  Claim C1 fails on an empty input. \<open>rebuild_atomic_core\<close> on an empty atomic facts
  file, and \<open>embed_and_save_layer\<close> on an empty document list, overwrite the metadata
  file with zero records and then raise \<open>IndexError\<close> at \<open>shape[1]\<close>, before the index
  is built and written. Beside the index of an earlier build this leaves zero
  records and two vectors, and a search returns the id 1, which is not below the
  record count.
\<close>

theorem rebuild_on_empty_input_misaligned:
  "rebuild_atomic_core loads encoder (Some []) store
     = (Some IndexError, store\<lparr>metadata_file := Some [], embeddings_file := Some []\<rparr>)
   \<and> embed_and_save_layer encoder [] store
     = (Some IndexError, store\<lparr>metadata_file := Some []\<rparr>)
   \<and> rebuild_atomic_core
       (\<lambda>l. if l = [] then None else Some (JObj [(''text'', JStr l)]))
       (\<lambda>s. [of_nat (length s), of_nat (count_list s CHR ''a'')])
       (Some [])
       \<lparr>metadata_file = Some [JObj [(''text'', JStr ''Magic Kingdom opens at 9.'')],
                               JObj [(''text'', JStr ''EPCOT closes at 9 PM.'')]],
        embeddings_file = Some [[25, 2], [21, 1]],
        index_file = Some \<lparr>index_d = 2, index_vectors = [[25, 2], [21, 1]]\<rparr>\<rparr>
     = (Some IndexError,
        \<lparr>metadata_file = Some [], embeddings_file = Some [],
         index_file = Some \<lparr>index_d = 2, index_vectors = [[25, 2], [21, 1]]\<rparr>\<rparr>)
   \<and> length ([] :: json list) < ntotal \<lparr>index_d = 2, index_vectors = [[25, 2], [21, 1]]\<rparr>
   \<and> index_search \<lparr>index_d = 2, index_vectors = [[25, 2], [21, 1]]\<rparr> [20, 1] 1 = Inr [(1, 1)]"
proof (intro conjI)
  show "rebuild_atomic_core loads encoder (Some []) store
     = (Some IndexError, store\<lparr>metadata_file := Some [], embeddings_file := Some []\<rparr>)"
    by (simp add: rebuild_atomic_core_def encode_def as_array_def shape1_def)
  show "embed_and_save_layer encoder [] store
     = (Some IndexError, store\<lparr>metadata_file := Some []\<rparr>)"
    by (simp add: embed_and_save_layer_def as_array_def shape1_def)
  show "rebuild_atomic_core
       (\<lambda>l. if l = [] then None else Some (JObj [(''text'', JStr l)]))
       (\<lambda>s. [of_nat (length s), of_nat (count_list s CHR ''a'')])
       (Some [])
       \<lparr>metadata_file = Some [JObj [(''text'', JStr ''Magic Kingdom opens at 9.'')],
                               JObj [(''text'', JStr ''EPCOT closes at 9 PM.'')]],
        embeddings_file = Some [[25, 2], [21, 1]],
        index_file = Some \<lparr>index_d = 2, index_vectors = [[25, 2], [21, 1]]\<rparr>\<rparr>
     = (Some IndexError,
        \<lparr>metadata_file = Some [], embeddings_file = Some [],
         index_file = Some \<lparr>index_d = 2, index_vectors = [[25, 2], [21, 1]]\<rparr>\<rparr>)"
    by (simp add: rebuild_atomic_core_def encode_def as_array_def shape1_def)
  show "length ([] :: json list) < ntotal \<lparr>index_d = 2, index_vectors = [[25, 2], [21, 1]]\<rparr>"
    by (simp add: ntotal_def)
  show "index_search \<lparr>index_d = 2, index_vectors = [[25, 2], [21, 1]]\<rparr> [20, 1] 1 = Inr [(1, 1)]"
    by code_simp
qed

text \<open>On a non-empty input the same rebuild returns and leaves the files aligned.\<close>

lemma rebuild_atomic_core_example:
  "rebuild_atomic_core
     (\<lambda>l. if l = [] then None else Some (JObj [(''text'', JStr l)]))
     (\<lambda>s. [of_nat (length s), of_nat (count_list s CHR ''a'')])
     (Some [''Magic Kingdom opens at 9.'', ''EPCOT closes at 9 PM.''])
     \<lparr>metadata_file = None, embeddings_file = None, index_file = None\<rparr>
   = (None,
      \<lparr>metadata_file = Some [JObj [(''text'', JStr ''Magic Kingdom opens at 9.'')],
                              JObj [(''text'', JStr ''EPCOT closes at 9 PM.'')]],
       embeddings_file = Some [[25, 2], [21, 1]],
       index_file = Some \<lparr>index_d = 2, index_vectors = [[25, 2], [21, 1]]\<rparr>\<rparr>)"
  by code_simp

lemma embed_and_save_layer_example:
  "embed_and_save_layer
     (\<lambda>s. [of_nat (length s), of_nat (count_list s CHR ''a'')])
     [JObj [(''file_name'', JStr ''a.pdf''), (''content'', JStr ''alpha beta'')],
      JObj [(''file_name'', JStr ''b.pdf''), (''content'', JStr ''gamma'')]]
     \<lparr>metadata_file = None, embeddings_file = None, index_file = None\<rparr>
   = (None,
      \<lparr>metadata_file = Some
            [JObj [(''source_file'', JStr ''a.pdf''), (''chunk_id'', JNum 0),
                   (''text'', JStr ''alpha beta''), (''char_count'', JNum 10)],
             JObj [(''source_file'', JStr ''b.pdf''), (''chunk_id'', JNum 0),
                   (''text'', JStr ''gamma''), (''char_count'', JNum 5)]],
       embeddings_file = None,
       index_file = Some \<lparr>index_d = 2, index_vectors = [[10, 3], [5, 2]]\<rparr>\<rparr>)"
  by code_simp

text \<open>The builds return on non-empty, well-formed input, for an encoder of fixed
  dimension.\<close>

lemma as_array_fixed:
  "list_all (\<lambda>e. length e = d) es \<Longrightarrow> as_array es = Inr es"
  by (cases es) (auto simp: as_array_def list_all_iff)

lemma index_written:
  "es \<noteq> [] \<Longrightarrow> list_all (\<lambda>e. length e = d) es \<Longrightarrow>
     \<exists>d' ix. shape1 es = Inr d' \<and> index_add (IndexFlatL2 d') es = Inr ix"
  by (cases es) (auto simp: shape1_def index_add_def IndexFlatL2_def list_all_iff)

lemma load_json_lines_returns:
  "list_all (\<lambda>l. loads l \<noteq> None) ls \<Longrightarrow>
     load_json_lines loads ls = Inr (map (\<lambda>l. the (loads l)) ls)"
  by (induction ls) auto

lemma fact_texts_returns:
  "list_all (\<lambda>a. \<exists>t. getitem a ''text'' = Inr (JStr t)) facts \<Longrightarrow>
     \<exists>ts. fact_texts facts = Inr ts \<and> length ts = length facts"
  by (induction facts) auto

lemma rebuild_atomic_core_returns:
  assumes "lines \<noteq> []"
    and "list_all (\<lambda>l. \<exists>doc t. loads l = Some doc \<and> getitem doc ''text'' = Inr (JStr t)) lines"
    and "\<And>s. length (encoder s) = d"
  shows "\<exists>store'. rebuild_atomic_core loads encoder (Some lines) store = (None, store')"
proof -
  have "list_all (\<lambda>l. loads l \<noteq> None) lines"
    using assms(2) by (auto simp: list_all_iff)
  then have ld: "load_json_lines loads lines = Inr (map (\<lambda>l. the (loads l)) lines)"
    by (rule load_json_lines_returns)
  have "list_all (\<lambda>a. \<exists>t. getitem a ''text'' = Inr (JStr t)) (map (\<lambda>l. the (loads l)) lines)"
    using assms(2) by (auto simp: list_all_iff)
  then obtain ts where ts: "fact_texts (map (\<lambda>l. the (loads l)) lines) = Inr ts"
    and len: "length ts = length (map (\<lambda>l. the (loads l)) lines)"
    using fact_texts_returns by blast
  have ne: "map encoder ts \<noteq> []" using len assms(1) by auto
  have fx: "list_all (\<lambda>e. length e = d) (map encoder ts)"
    using assms(3) by (simp add: list_all_iff)
  have en: "encode encoder ts = Inr (map encoder ts)"
    using as_array_fixed [OF fx] by (simp add: encode_def)
  obtain d' ix where "shape1 (map encoder ts) = Inr d'"
    "index_add (IndexFlatL2 d') (map encoder ts) = Inr ix"
    using index_written [OF ne fx] by blast
  then show ?thesis by (simp add: rebuild_atomic_core_def ld ts en Let_def)
qed

lemma simple_token_split_default:
  "\<exists>chunks. simple_token_split content 512 50 = Inr chunks \<and> chunks \<noteq> []"
proof (cases "int (length (split content)) \<le> 512")
  case True
  then show ?thesis by (simp add: simple_token_split_def)
next
  case False
  then have "0 < length (split content)" by auto
  then have "chunk_loop (split content) 512 462 0 \<noteq> []"
    by (subst chunk_loop.simps) simp
  then show ?thesis using False by (simp add: simple_token_split_def Let_def)
qed

lemma layer_loop_returns:
  assumes "list_all (\<lambda>doc. (\<exists>c. getitem doc ''content'' = Inr (JStr c))
                          \<and> (\<exists>f. getitem doc ''file_name'' = Inr f)) docs"
    and "\<And>s. length (encoder s) = d"
    and "list_all (\<lambda>e. length e = d) es"
  shows "\<exists>cs' es'. layer_loop encoder docs (cs, es) = Inr (cs', es')
           \<and> list_all (\<lambda>e. length e = d) es' \<and> length es + length docs \<le> length es'"
  using assms(1,3)
proof (induction docs arbitrary: cs es)
  case Nil
  then show ?case by simp
next
  case (Cons doc docs)
  from Cons.prems(1) obtain c f where
    c: "getitem doc ''content'' = Inr (JStr c)" and f: "getitem doc ''file_name'' = Inr f"
    and rest: "list_all (\<lambda>doc. (\<exists>c. getitem doc ''content'' = Inr (JStr c))
                          \<and> (\<exists>f. getitem doc ''file_name'' = Inr f)) docs"
    by auto
  obtain chunks where s: "simple_token_split c 512 50 = Inr chunks" and ne: "chunks \<noteq> []"
    using simple_token_split_default by blast
  have "list_all (\<lambda>e. length e = d) (map encoder chunks)"
    using assms(2) by (simp add: list_all_iff)
  then have en: "encode encoder chunks = Inr (map encoder chunks)"
    using as_array_fixed by (simp add: encode_def)
  let ?pairs = "zip chunks (map encoder chunks)"
  have pne: "?pairs \<noteq> []" using ne by (cases chunks) auto
  have snd: "map snd ?pairs = map encoder chunks" by (simp add: map_snd_zip)
  have step: "layer_loop encoder (doc # docs) (cs, es)
      = layer_loop encoder docs (cs @ chunk_records f 0 ?pairs, es @ map encoder chunks)"
    using c f s en pne by (simp add: Let_def snd)
  have "list_all (\<lambda>e. length e = d) (es @ map encoder chunks)"
    using Cons.prems(2) assms(2) by (auto simp: list_all_iff)
  from Cons.IH [OF rest this, of "cs @ chunk_records f 0 ?pairs"]
  obtain cs' es' where
    r: "layer_loop encoder docs (cs @ chunk_records f 0 ?pairs, es @ map encoder chunks)
          = Inr (cs', es')"
    and d: "list_all (\<lambda>e. length e = d) es'"
    and l: "length (es @ map encoder chunks) + length docs \<le> length es'"
    by blast
  have one: "1 \<le> length chunks" using ne by (cases chunks) simp_all
  have "length es + length chunks + length docs \<le> length es'" using l by simp
  with one have "length es + length (doc # docs) \<le> length es'" by simp
  then show ?case using step r d by simp
qed

lemma embed_and_save_layer_returns:
  assumes "docs \<noteq> []"
    and "list_all (\<lambda>doc. (\<exists>c. getitem doc ''content'' = Inr (JStr c))
                          \<and> (\<exists>f. getitem doc ''file_name'' = Inr f)) docs"
    and "\<And>s. length (encoder s) = d"
  shows "\<exists>store'. embed_and_save_layer encoder docs store = (None, store')"
proof -
  obtain cs es where r: "layer_loop encoder docs ([], []) = Inr (cs, es)"
    and d: "list_all (\<lambda>e. length e = d) es" and l: "length docs \<le> length es"
    using layer_loop_returns [where es = "[]" and cs = "[]" and encoder = encoder and d = d,
        OF assms(2)] assms(3) by auto
  have ne: "es \<noteq> []" using l assms(1) by auto
  obtain d' ix where "shape1 es = Inr d'" "index_add (IndexFlatL2 d') es = Inr ix"
    using index_written [OF ne d] by blast
  then show ?thesis
    using as_array_fixed [OF d] by (simp add: embed_and_save_layer_def r Let_def)
qed

section \<open>Layer retrieval: verification\<close>

text \<open>
  Claim C9, as stated, fails on \<open>retrieve\<close> of \<open>11_answer_with_llm.py\<close>: an unknown
  layer name reads the strategy metadata, and a missing metadata file gives the
  fallback context instead of an error.
\<close>

theorem layer_dispatch_counterexample:
  "retrieve_answer_with_llm
     (\<lambda>l. if l = [] then None else Some (JObj [(''text'', JStr l)]))
     \<lparr>index_files = Map.empty,
      meta_files = [''data/experience_strategy/experience_strategy_metadata.jsonl''
                      \<mapsto> [''Plan rest days.'', ''Arrive early.'', ''Book dining.'']]\<rparr>
     ''When does it open?'' ''bogus'' 2
   = [''Plan rest days.'', ''Arrive early.'']
   \<and> retrieve_answer_with_llm
     (\<lambda>l. if l = [] then None else Some (JObj [(''text'', JStr l)]))
     \<lparr>index_files = Map.empty,
      meta_files = [''data/experience_strategy/experience_strategy_metadata.jsonl''
                      \<mapsto> [''Plan rest days.'', ''Arrive early.'', ''Book dining.'']]\<rparr>
     ''When does it open?'' ''core'' 2
   = [''General Orlando travel guidance.'']"
  by code_simp

text \<open>
  Claim C9, amended. In \<open>05_test_layers.py\<close> a layer name other than \<open>core\<close>,
  \<open>context\<close> and \<open>strategy\<close> makes \<open>load_index_and_metadata\<close>, and so \<open>retrieve\<close>,
  raise \<open>ValueError\<close> with the message naming the three layers, and a missing index
  or metadata file of a recognized layer makes them raise. The lightweight
  \<open>retrieve\<close> of \<open>11_answer_with_llm.py\<close> catches every exception and returns the
  fixed fallback context when its metadata file cannot be read.
\<close>

theorem layer_dispatch:
  "(layer \<noteq> ''core'' \<and> layer \<noteq> ''context'' \<and> layer \<noteq> ''strategy'' \<longrightarrow>
       load_index_and_metadata loads fs layer
         = Inl (ValueError ''Layer must be: core, context, or strategy'')
     \<and> retrieve_test_layers loads encoder fs query layer top_k
         = Inl (ValueError ''Layer must be: core, context, or strategy''))
   \<and> (layer_paths layer = Inr (index_path, meta_path)
        \<and> (index_files fs index_path = None \<or> meta_files fs meta_path = None) \<longrightarrow>
       (\<exists>e. load_index_and_metadata loads fs layer = Inl e)
     \<and> (\<exists>e. retrieve_test_layers loads encoder fs query layer top_k = Inl e))
   \<and> (meta_files fs (meta_path_of layer) = None \<longrightarrow>
       retrieve_answer_with_llm loads fs query layer top_k
         = [''General Orlando travel guidance.''])"
proof (intro conjI impI)
  assume "layer \<noteq> ''core'' \<and> layer \<noteq> ''context'' \<and> layer \<noteq> ''strategy''"
  then have p: "layer_paths layer = Inl (ValueError ''Layer must be: core, context, or strategy'')"
    by (simp add: layer_paths_def)
  then show "load_index_and_metadata loads fs layer
         = Inl (ValueError ''Layer must be: core, context, or strategy'')"
    by (simp add: load_index_and_metadata_def)
  then show "retrieve_test_layers loads encoder fs query layer top_k
         = Inl (ValueError ''Layer must be: core, context, or strategy'')"
    by (simp add: retrieve_test_layers_def)
next
  assume a: "layer_paths layer = Inr (index_path, meta_path)
        \<and> (index_files fs index_path = None \<or> meta_files fs meta_path = None)"
  then show l: "\<exists>e. load_index_and_metadata loads fs layer = Inl e"
    by (auto simp: load_index_and_metadata_def split: option.splits)
  then show "\<exists>e. retrieve_test_layers loads encoder fs query layer top_k = Inl e"
    by (auto simp: retrieve_test_layers_def)
next
  assume "meta_files fs (meta_path_of layer) = None"
  then show "retrieve_answer_with_llm loads fs query layer top_k
         = [''General Orlando travel guidance.'']"
    by (simp add: retrieve_answer_with_llm_def)
qed

theorem layer_dispatch_witness:
  "load_index_and_metadata (\<lambda>l. Some (JStr l)) \<lparr>index_files = Map.empty, meta_files = Map.empty\<rparr>
     ''bogus'' = Inl (ValueError ''Layer must be: core, context, or strategy'')
   \<and> retrieve_test_layers (\<lambda>l. Some (JStr l)) (\<lambda>s. [of_nat (length s)])
        \<lparr>index_files = Map.empty, meta_files = Map.empty\<rparr> ''When?'' ''bogus'' 2
      = Inl (ValueError ''Layer must be: core, context, or strategy'')
   \<and> retrieve_test_layers (\<lambda>l. Some (JStr l)) (\<lambda>s. [of_nat (length s)])
        \<lparr>index_files = Map.empty, meta_files = Map.empty\<rparr> ''When?'' ''core'' 2
      = Inl (RuntimeError ''data/index/faiss.index'')
   \<and> retrieve_answer_with_llm (\<lambda>l. Some (JStr l))
        \<lparr>index_files = Map.empty, meta_files = Map.empty\<rparr> ''When?'' ''bogus'' 2
      = [''General Orlando travel guidance.'']"
proof -
  let ?loads = "\<lambda>l::string. Some (JStr l)"
  let ?enc = "\<lambda>s::string. [of_nat (length s) :: rat]"
  let ?fs = "\<lparr>index_files = Map.empty, meta_files = Map.empty\<rparr>"
  have ne: "''bogus'' \<noteq> ''core'' \<and> ''bogus'' \<noteq> ''context'' \<and> ''bogus'' \<noteq> ''strategy''"
    by simp
  have m: "meta_files ?fs (meta_path_of ''bogus'') = None" by simp
  note d = layer_dispatch [where layer = "''bogus''" and loads = ?loads and fs = ?fs
      and encoder = ?enc and query = "''When?''" and top_k = 2]
  have a: "load_index_and_metadata ?loads ?fs ''bogus''
      = Inl (ValueError ''Layer must be: core, context, or strategy'')"
    using d ne by blast
  have b: "retrieve_test_layers ?loads ?enc ?fs ''When?'' ''bogus'' 2
      = Inl (ValueError ''Layer must be: core, context, or strategy'')"
    using d ne by blast
  have c: "retrieve_test_layers ?loads ?enc ?fs ''When?'' ''core'' 2
      = Inl (RuntimeError ''data/index/faiss.index'')"
    by code_simp
  have e: "retrieve_answer_with_llm ?loads ?fs ''When?'' ''bogus'' 2
      = [''General Orlando travel guidance.'']"
    using d m by blast
  from a b c e show ?thesis by blast
qed

lemma preview_loop_previews:
  "preview_loop loads ls = Inr ps \<Longrightarrow>
     list_all2 (\<lambda>l p. \<exists>doc. loads l = Some doc \<and> preview_300 doc = Inr p) ls ps"
  by (induction ls arbitrary: ps) (auto split: option.splits sum.splits)

lemma preview_loop_returns:
  "\<forall>l \<in> set ls. \<exists>doc p. loads l = Some doc \<and> preview_300 doc = Inr p \<Longrightarrow>
     \<exists>ps. preview_loop loads ls = Inr ps"
  by (induction ls) auto

lemma preview_loop_raises:
  "l \<in> set ls \<Longrightarrow> loads l = None \<or> (\<exists>doc e. loads l = Some doc \<and> preview_300 doc = Inl e) \<Longrightarrow>
     \<exists>e. preview_loop loads ls = Inl e"
  by (induction ls) (auto split: option.splits sum.splits)

text \<open>
  Claim C10. \<open>retrieve\<close> of \<open>11_answer_with_llm.py\<close> does not depend on the query.
  When the metadata file is readable and each of its first \<open>top_k\<close> lines loads to
  a dict whose \<open>text\<close> is absent or a string, the result is, line by line, the
  preview of those lines. When the file cannot be read, or one of those lines does
  not load or has no preview, the result is the fixed one-element fallback.
\<close>

theorem retrieve_query_independent:
  "retrieve_answer_with_llm loads fs query layer top_k
     = retrieve_answer_with_llm loads fs other_query layer top_k
   \<and> (meta_files fs (meta_path_of layer) = Some lines
        \<and> (\<forall>l \<in> set (take (nat top_k) lines).
              \<exists>doc p. loads l = Some doc \<and> preview_300 doc = Inr p) \<longrightarrow>
       list_all2 (\<lambda>l p. \<exists>doc. loads l = Some doc \<and> preview_300 doc = Inr p)
         (take (nat top_k) lines) (retrieve_answer_with_llm loads fs query layer top_k))
   \<and> (meta_files fs (meta_path_of layer) = None
        \<or> (\<exists>lines l. meta_files fs (meta_path_of layer) = Some lines
              \<and> l \<in> set (take (nat top_k) lines)
              \<and> (loads l = None \<or> (\<exists>doc e. loads l = Some doc \<and> preview_300 doc = Inl e))) \<longrightarrow>
       retrieve_answer_with_llm loads fs query layer top_k = [''General Orlando travel guidance.''])"
proof (intro conjI impI)
  show "retrieve_answer_with_llm loads fs query layer top_k
     = retrieve_answer_with_llm loads fs other_query layer top_k"
    by (simp add: retrieve_answer_with_llm_def)
next
  assume a: "meta_files fs (meta_path_of layer) = Some lines
        \<and> (\<forall>l \<in> set (take (nat top_k) lines).
              \<exists>doc p. loads l = Some doc \<and> preview_300 doc = Inr p)"
  then obtain ps where ps: "preview_loop loads (take (nat top_k) lines) = Inr ps"
    using preview_loop_returns by blast
  then have "retrieve_answer_with_llm loads fs query layer top_k = ps"
    using a by (simp add: retrieve_answer_with_llm_def)
  then show "list_all2 (\<lambda>l p. \<exists>doc. loads l = Some doc \<and> preview_300 doc = Inr p)
         (take (nat top_k) lines) (retrieve_answer_with_llm loads fs query layer top_k)"
    using preview_loop_previews [OF ps] by simp
next
  assume "meta_files fs (meta_path_of layer) = None
        \<or> (\<exists>lines l. meta_files fs (meta_path_of layer) = Some lines
              \<and> l \<in> set (take (nat top_k) lines)
              \<and> (loads l = None \<or> (\<exists>doc e. loads l = Some doc \<and> preview_300 doc = Inl e)))"
  then show "retrieve_answer_with_llm loads fs query layer top_k
      = [''General Orlando travel guidance.'']"
  proof
    assume "meta_files fs (meta_path_of layer) = None"
    then show ?thesis by (simp add: retrieve_answer_with_llm_def)
  next
    assume "\<exists>lines l. meta_files fs (meta_path_of layer) = Some lines
              \<and> l \<in> set (take (nat top_k) lines)
              \<and> (loads l = None \<or> (\<exists>doc e. loads l = Some doc \<and> preview_300 doc = Inl e))"
    then obtain lines l where f: "meta_files fs (meta_path_of layer) = Some lines"
      and l: "l \<in> set (take (nat top_k) lines)"
      and b: "loads l = None \<or> (\<exists>doc e. loads l = Some doc \<and> preview_300 doc = Inl e)"
      by blast
    obtain e where "preview_loop loads (take (nat top_k) lines) = Inl e"
      using preview_loop_raises [where loads = loads and l = l] l b by blast
    then show ?thesis using f by (simp add: retrieve_answer_with_llm_def)
  qed
qed

theorem retrieve_query_independent_witness:
  "retrieve_answer_with_llm
     (\<lambda>l. if l = [] then None else Some (JObj [(''text'', JStr l)]))
     \<lparr>index_files = Map.empty,
      meta_files = [''data/context_intelligence/context_intelligence_metadata.jsonl''
                      \<mapsto> [''Plan rest days.'', ''Arrive early.'', ''Book dining.'']]\<rparr>
     ''When does Magic Kingdom open?'' ''context'' 2
   = [''Plan rest days.'', ''Arrive early.'']
   \<and> retrieve_answer_with_llm
     (\<lambda>l. if l = [] then None else Some (JObj [(''text'', JStr l)]))
     \<lparr>index_files = Map.empty,
      meta_files = [''data/context_intelligence/context_intelligence_metadata.jsonl''
                      \<mapsto> [''Plan rest days.'', ''Arrive early.'', ''Book dining.'']]\<rparr>
     ''Where is LEGOLAND?'' ''context'' 2
   = [''Plan rest days.'', ''Arrive early.'']
   \<and> retrieve_answer_with_llm
     (\<lambda>l. if l = [] then None else Some (JObj [(''text'', JStr l)]))
     \<lparr>index_files = Map.empty,
      meta_files = [''data/context_intelligence/context_intelligence_metadata.jsonl''
                      \<mapsto> [''Plan rest days.'', '''', ''Book dining.'']]\<rparr>
     ''Where is LEGOLAND?'' ''context'' 2
   = [''General Orlando travel guidance.'']"
proof -
  let ?loads = "\<lambda>l. if l = [] then None else Some (JObj [(''text'', JStr l)])"
  let ?fs = "\<lparr>index_files = Map.empty,
      meta_files = [''data/context_intelligence/context_intelligence_metadata.jsonl''
                      \<mapsto> [''Plan rest days.'', ''Arrive early.'', ''Book dining.'']]\<rparr>"
  let ?bad = "\<lparr>index_files = Map.empty,
      meta_files = [''data/context_intelligence/context_intelligence_metadata.jsonl''
                      \<mapsto> [''Plan rest days.'', '''', ''Book dining.'']]\<rparr>"
  have a: "retrieve_answer_with_llm ?loads ?fs ''When does Magic Kingdom open?'' ''context'' 2
      = [''Plan rest days.'', ''Arrive early.'']" by code_simp
  have b: "retrieve_answer_with_llm ?loads ?fs ''Where is LEGOLAND?'' ''context'' 2
      = [''Plan rest days.'', ''Arrive early.'']"
    using retrieve_query_independent [where loads = ?loads and fs = ?fs
        and query = "''When does Magic Kingdom open?''" and other_query = "''Where is LEGOLAND?''"
        and layer = "''context''" and top_k = 2] a
    by simp
  have f: "meta_files ?bad (meta_path_of ''context'') = Some [''Plan rest days.'', '''', ''Book dining.'']"
    by (simp add: meta_path_of_def)
  have l: "'''' \<in> set (take (nat 2) [''Plan rest days.'', '''', ''Book dining.''])"
    by (simp add: numeral_2_eq_2)
  have n: "?loads '''' = None" by simp
  have c: "retrieve_answer_with_llm ?loads ?bad ''Where is LEGOLAND?'' ''context'' 2
      = [''General Orlando travel guidance.'']"
    using retrieve_query_independent [where loads = ?loads and fs = ?bad
        and query = "''Where is LEGOLAND?''" and layer = "''context''" and top_k = 2] f l n
    by blast
  from a b c show ?thesis by blast
qed

end
